theory Spec2Isabelle
  imports Complex_Main "HOL-Library.Char_ord" "HOL-Library.List_Lexorder"
begin

section \<open>Python values\<close>

text \<open>
  Fields annotated \<open>Any\<close> in the source (a task's \<open>data\<close> and \<open>result\<close>, a worker's
  \<open>addr\<close>) hold whatever Python object was put there: the objects \<open>json.loads\<close> builds
  (None, bool, int, float, str, list, dict with string keys) and the address tuples that
  \<open>socket.recvfrom\<close> returns. Floats are idealised as reals.
\<close>

datatype pyval =
    PNone
  | PBool bool
  | PInt int
  | PFloat real
  | PStr string
  | PList "pyval list"
  | PTuple "pyval list"
  | PDict "(string \<times> pyval) list"

text \<open>
  A Python \<open>dict\<close> is an association list in insertion order; a dict has no two entries
  under one key.
\<close>

type_synonym ('k, 'v) dict = "('k \<times> 'v) list"

definition keys :: "('k, 'v) dict \<Rightarrow> 'k list" where
  "keys d = map fst d"

definition wf_dict :: "('k, 'v) dict \<Rightarrow> bool" where
  "wf_dict d = distinct (keys d)"

text \<open>\<open>d.get(k)\<close>\<close>

definition dict_get :: "('k, 'v) dict \<Rightarrow> 'k \<Rightarrow> 'v option" where
  "dict_get d k = map_of d k"

text \<open>\<open>d[k] = v\<close>: an existing key keeps its position, a new key goes last.\<close>

fun dict_set :: "('k, 'v) dict \<Rightarrow> 'k \<Rightarrow> 'v \<Rightarrow> ('k, 'v) dict" where
  "dict_set [] k v = [(k, v)]"
| "dict_set ((k', v') # d) k v =
     (if k' = k then (k, v) # d else (k', v') # dict_set d k v)"

text \<open>\<open>del d[k]\<close>, for a key that is present.\<close>

definition dict_del :: "('k, 'v) dict \<Rightarrow> 'k \<Rightarrow> ('k, 'v) dict" where
  "dict_del d k = filter (\<lambda>kv. fst kv \<noteq> k) d"

section \<open>shared/models.py\<close>

record Task =
  task_id :: string
  client_id :: string
  status :: string
  data :: pyval
  lamport_ts :: int
  assigned_worker :: "string option"
  result :: pyval

section \<open>orchestrator/lamport\_clock.py\<close>

text \<open>
  The clock is its counter \<open>time\<close>, a Python integer. Each method runs under the clock's
  lock, so it is one atomic step from counter to (returned value, counter).
\<close>

type_synonym LamportClock = int

definition increment :: "LamportClock \<Rightarrow> int \<times> LamportClock" where
  "increment time = (time + 1, time + 1)"

definition update :: "LamportClock \<Rightarrow> int \<Rightarrow> int \<times> LamportClock" where
  "update time received_time = (max time received_time + 1, max time received_time + 1)"

definition get_time :: "LamportClock \<Rightarrow> int" where
  "get_time time = time"

definition set_time :: "LamportClock \<Rightarrow> int \<Rightarrow> LamportClock" where
  "set_time time new_time = new_time"

text \<open>The timestamps returned by \<open>n\<close> consecutive calls of \<open>increment\<close>, and the clock left.\<close>

fun increments :: "nat \<Rightarrow> LamportClock \<Rightarrow> int list \<times> LamportClock" where
  "increments 0 c = ([], c)"
| "increments (Suc n) c =
     (let (t, c1) = increment c; (ts, c2) = increments n c1 in (t # ts, c2))"

section \<open>orchestrator/state\_manager.py\<close>

record worker_entry =
  addr :: pyval
  last_heartbeat :: real

record StateManager =
  tasks :: "(string, Task) dict"
  pending_tasks :: "string list"
  workers :: "(string, worker_entry) dict"

definition init_state :: StateManager where
  "init_state = \<lparr>tasks = [], pending_tasks = [], workers = []\<rparr>"

definition WORKER_TIMEOUT :: real where
  "WORKER_TIMEOUT = 5"

definition add_task :: "StateManager \<Rightarrow> Task \<Rightarrow> StateManager" where
  "add_task st task =
     st\<lparr>tasks := dict_set (tasks st) (task_id task) task,
        pending_tasks := pending_tasks st @ [task_id task]\<rparr>"

text \<open>
  \<open>get_next_task\<close> returns the task object stored in the table: the caller's reference
  and the table entry are one object. The returned value is that object after the
  status change.
\<close>

definition get_next_task :: "StateManager \<Rightarrow> Task option \<times> StateManager" where
  "get_next_task st =
     (case pending_tasks st of
        [] \<Rightarrow> (None, st)
      | tid # rest \<Rightarrow>
          (case dict_get (tasks st) tid of
             None \<Rightarrow> (None, st\<lparr>pending_tasks := rest\<rparr>)
           | Some task \<Rightarrow>
               (let task' = task\<lparr>status := ''IN_PROGRESS''\<rparr>
                in (Some task',
                    st\<lparr>tasks := dict_set (tasks st) tid task', pending_tasks := rest\<rparr>))))"

text \<open>\<open>now\<close> is the value of \<open>time.time()\<close> read inside the call.\<close>

definition update_worker_heartbeat ::
  "StateManager \<Rightarrow> string \<Rightarrow> pyval \<Rightarrow> real \<Rightarrow> StateManager" where
  "update_worker_heartbeat st worker_id worker_addr now =
     st\<lparr>workers := dict_set (workers st) worker_id
                      \<lparr>addr = worker_addr, last_heartbeat = now\<rparr>\<rparr>"

text \<open>
  The inner loop of \<open>check_dead_workers\<close>: one pass over \<open>self.tasks.items()\<close> for the dead
  worker \<open>worker_id\<close>, threading the pending queue; \<open>insert(0, task_id)\<close> puts the id in
  front.
\<close>

fun reassign_tasks ::
  "string \<Rightarrow> (string, Task) dict \<Rightarrow> string list \<Rightarrow> (string, Task) dict \<times> string list" where
  "reassign_tasks worker_id [] q = ([], q)"
| "reassign_tasks worker_id ((tid, task) # rest) q =
     (if assigned_worker task = Some worker_id \<and> status task = ''IN_PROGRESS''
      then (let (rest', q') = reassign_tasks worker_id rest (tid # q)
            in ((tid, task\<lparr>status := ''PENDING'', assigned_worker := None\<rparr>) # rest', q'))
      else (let (rest', q') = reassign_tasks worker_id rest q
            in ((tid, task) # rest', q')))"

text \<open>The outer loop over \<open>dead_workers\<close>.\<close>

fun remove_dead :: "string list \<Rightarrow> StateManager \<Rightarrow> StateManager" where
  "remove_dead [] st = st"
| "remove_dead (worker_id # dead) st =
     (let (ts, q) = reassign_tasks worker_id (tasks st) (pending_tasks st)
      in remove_dead dead
           (st\<lparr>workers := dict_del (workers st) worker_id, tasks := ts, pending_tasks := q\<rparr>))"

definition is_dead :: "real \<Rightarrow> worker_entry \<Rightarrow> bool" where
  "is_dead now w = (now - last_heartbeat w > WORKER_TIMEOUT)"

definition dead_workers :: "StateManager \<Rightarrow> real \<Rightarrow> string list" where
  "dead_workers st now = map fst (filter (\<lambda>kv. is_dead now (snd kv)) (workers st))"

definition check_dead_workers :: "StateManager \<Rightarrow> real \<Rightarrow> string list \<times> StateManager" where
  "check_dead_workers st now =
     (let st' = remove_dead (dead_workers st now) st in (keys (workers st'), st'))"

text \<open>
  \<open>update_task_status(task_id, status, result=None)\<close>; the call without a third argument
  is \<open>update_task_status_default\<close>.
\<close>

definition update_task_status ::
  "StateManager \<Rightarrow> string \<Rightarrow> string \<Rightarrow> pyval \<Rightarrow> StateManager" where
  "update_task_status st tid new_status new_result =
     (case dict_get (tasks st) tid of
        None \<Rightarrow> st
      | Some task \<Rightarrow>
          st\<lparr>tasks := dict_set (tasks st) tid
                         (task\<lparr>status := new_status, result := new_result\<rparr>)\<rparr>)"

definition update_task_status_default :: "StateManager \<Rightarrow> string \<Rightarrow> string \<Rightarrow> StateManager" where
  "update_task_status_default st tid new_status = update_task_status st tid new_status PNone"

definition get_task_status :: "StateManager \<Rightarrow> string \<Rightarrow> Task option" where
  "get_task_status st tid = dict_get (tasks st) tid"

text \<open>
  Vocabulary for stating what \<open>check_dead_workers\<close> does: a task is held by a worker
  when the test of the inner loop is true of it, and \<open>reset_task\<close> is the loop body's
  change to the task.
\<close>

definition held_by :: "string \<Rightarrow> Task \<Rightarrow> bool" where
  "held_by worker_id t = (assigned_worker t = Some worker_id \<and> status t = ''IN_PROGRESS'')"

definition reset_task :: "Task \<Rightarrow> Task" where
  "reset_task t = t\<lparr>status := ''PENDING'', assigned_worker := None\<rparr>"

section \<open>orchestrator/load\_balancer.py\<close>

text \<open>
  \<open>sorted(workers)\<close> orders Python strings by code point, lexicographically: the order of
  \<open>string\<close> given by the orders on \<open>char\<close> and on lists.
\<close>

record RoundRobinLoadBalancer =
  lb_workers :: "string list"
  current_index :: nat

definition init_balancer :: RoundRobinLoadBalancer where
  "init_balancer = \<lparr>lb_workers = [], current_index = 0\<rparr>"

definition update_workers :: "RoundRobinLoadBalancer \<Rightarrow> string list \<Rightarrow> RoundRobinLoadBalancer" where
  "update_workers lb ws =
     (let sorted_ws = sort ws
      in lb\<lparr>lb_workers := sorted_ws,
            current_index := (if current_index lb \<ge> length sorted_ws then 0
                              else current_index lb)\<rparr>)"

definition get_next_worker ::
  "RoundRobinLoadBalancer \<Rightarrow> string option \<times> RoundRobinLoadBalancer" where
  "get_next_worker lb =
     (if lb_workers lb = [] then (None, lb)
      else
        (let i = (if current_index lb \<ge> length (lb_workers lb) then 0 else current_index lb);
             worker = lb_workers lb ! i
         in (Some worker, lb\<lparr>current_index := (i + 1) mod length (lb_workers lb)\<rparr>)))"

text \<open>The results of \<open>k\<close> consecutive calls of \<open>get_next_worker\<close>, and the balancer left.\<close>

fun next_workers ::
  "nat \<Rightarrow> RoundRobinLoadBalancer \<Rightarrow> string option list \<times> RoundRobinLoadBalancer" where
  "next_workers 0 lb = ([], lb)"
| "next_workers (Suc k) lb =
     (let (w, lb1) = get_next_worker lb; (ws, lb2) = next_workers k lb1 in (w # ws, lb2))"

section \<open>config.py\<close>

definition USERS :: "(string, string) dict" where
  "USERS = [(''user1'', ''pass1''), (''user2'', ''pass2'')]"

definition SECRET_KEY :: string where
  "SECRET_KEY = ''sua-chave-super-secreta''"

section \<open>orchestrator/main.py\<close>

record Orchestrator =
  state_manager :: StateManager
  lamport_clock :: LamportClock
  load_balancer :: RoundRobinLoadBalancer

definition init_orchestrator :: Orchestrator where
  "init_orchestrator =
     \<lparr>state_manager = init_state, lamport_clock = 0, load_balancer = init_balancer\<rparr>"

datatype py_error =
    JSONDecodeError
  | UnicodeDecodeError
  | KeyError string
  | TypeError
  | AttributeError

subsection \<open>Client endpoint\<close>

text \<open>
  A request is the JSON object that \<open>json.loads\<close> made of the bytes received. What the
  handler does with the connection is a \<open>response\<close>: the JSON value passed to
  \<open>conn.sendall(json.dumps(...))\<close>, nothing at all, or an exception the handler does not
  catch. \<open>Unmodelled\<close> marks a request whose username has a text form that \<open>py_str\<close> does
  not give.

  \<open>H\<close> stands for \<open>hashlib.sha256(s.encode()).hexdigest()\<close>, a library function.
\<close>

datatype response = Sent pyval | Nothing | Uncaught py_error | Unmodelled

text \<open>\<open>request.get(k)\<close>: the value, or None.\<close>

definition py_get :: "(string, pyval) dict \<Rightarrow> string \<Rightarrow> pyval" where
  "py_get d k = (case dict_get d k of None \<Rightarrow> PNone | Some v \<Rightarrow> v)"

text \<open>Lists and dicts are not hashable, and neither is a tuple that holds one.\<close>

fun hashable :: "pyval \<Rightarrow> bool" where
  "hashable (PList xs) = False"
| "hashable (PDict kvs) = False"
| "hashable (PTuple xs) = list_all hashable xs"
| "hashable v = True"

text \<open>\<open>USERS.get(username)\<close> for an arbitrary JSON value as the key.\<close>

definition users_get :: "pyval \<Rightarrow> py_error + pyval" where
  "users_get username =
     (if \<not> hashable username then Inl TypeError
      else case username of
             PStr u \<Rightarrow> (case dict_get USERS u of None \<Rightarrow> Inr PNone | Some p \<Rightarrow> Inr (PStr p))
           | _ \<Rightarrow> Inr PNone)"

text \<open>The text an f-string gives for a value, for the values whose text is modelled.\<close>

fun py_str :: "pyval \<Rightarrow> string option" where
  "py_str (PStr s) = Some s"
| "py_str PNone = Some ''None''"
| "py_str (PBool b) = Some (if b then ''True'' else ''False'')"
| "py_str v = None"

text \<open>
  The error texts. A Python string is a sequence of code points; the accented letters of
  these texts are the code points E1, E3 and E7.
\<close>

definition msg_bad_credentials :: string where
  "msg_bad_credentials = ''Credenciais inv'' @ [CHR 0xE1] @ ''lidas''"

definition msg_auth_required :: string where
  "msg_auth_required = ''Autentica'' @ [CHR 0xE7, CHR 0xE3] @ ''o necess'' @ [CHR 0xE1] @ ''ria''"

definition msg_invalid_token :: string where
  "msg_invalid_token = ''Token inv'' @ [CHR 0xE1] @ ''lido ou expirado''"

definition msg_not_found :: string where
  "msg_not_found = ''Tarefa n'' @ [CHR 0xE3] @ ''o encontrada''"

definition handle_login :: "(string \<Rightarrow> string) \<Rightarrow> (string, pyval) dict \<Rightarrow> response" where
  "handle_login H request =
     (let username = py_get request ''username'';
          password = py_get request ''password''
      in case users_get username of
           Inl e \<Rightarrow> Uncaught e
         | Inr stored \<Rightarrow>
             if stored = password
             then (case py_str username of
                     None \<Rightarrow> Unmodelled
                   | Some u \<Rightarrow> Sent (PDict [(''token'', PStr (H (u @ SECRET_KEY)))]))
             else Sent (PDict [(''error'', PStr msg_bad_credentials)]))"

fun token_owner :: "(string \<Rightarrow> string) \<Rightarrow> string list \<Rightarrow> pyval \<Rightarrow> string option" where
  "token_owner H [] token = None"
| "token_owner H (user # users) token =
     (if token = PStr (H (user @ SECRET_KEY)) then Some user else token_owner H users token)"

definition verify_token :: "(string \<Rightarrow> string) \<Rightarrow> pyval \<Rightarrow> bool" where
  "verify_token H token = (token_owner H (keys USERS) token \<noteq> None)"

definition get_user_from_token :: "(string \<Rightarrow> string) \<Rightarrow> pyval \<Rightarrow> string" where
  "get_user_from_token H token =
     (case token_owner H (keys USERS) token of None \<Rightarrow> ''unknown'' | Some user \<Rightarrow> user)"

text \<open>\<open>task.__dict__\<close>: the attributes in the order the dataclass declares them.\<close>

definition task_dict :: "Task \<Rightarrow> pyval" where
  "task_dict t =
     PDict [(''id'', PStr (task_id t)),
            (''client_id'', PStr (client_id t)),
            (''status'', PStr (status t)),
            (''data'', data t),
            (''lamport_ts'', PInt (lamport_ts t)),
            (''assigned_worker'', (case assigned_worker t of None \<Rightarrow> PNone | Some w \<Rightarrow> PStr w)),
            (''result'', result t)]"

text \<open>\<open>new_id\<close> is the text of the UUID drawn by \<open>uuid.uuid4()\<close>.\<close>

definition submitted_task ::
  "(string \<Rightarrow> string) \<Rightarrow> Orchestrator \<Rightarrow> string \<Rightarrow> (string, pyval) dict
     \<Rightarrow> Task \<times> LamportClock" where
  "submitted_task H orch new_id request =
     (let client = get_user_from_token H (py_get request ''token'');
          (ts, clock') = increment (lamport_clock orch)
      in (\<lparr>task_id = new_id, client_id = client, status = ''PENDING'',
           data = (case dict_get request ''data'' of None \<Rightarrow> PDict [] | Some d \<Rightarrow> d),
           lamport_ts = ts, assigned_worker = None, result = PNone\<rparr>,
          clock'))"

definition handle_submit_task ::
  "(string \<Rightarrow> string) \<Rightarrow> Orchestrator \<Rightarrow> string \<Rightarrow> (string, pyval) dict
     \<Rightarrow> response \<times> Orchestrator" where
  "handle_submit_task H orch new_id request =
     (let (task, clock') = submitted_task H orch new_id request
      in (Sent (PDict [(''status'', PStr ''Tarefa recebida''), (''task_id'', PStr (task_id task))]),
          orch\<lparr>state_manager := add_task (state_manager orch) task, lamport_clock := clock'\<rparr>))"

definition handle_task_status :: "Orchestrator \<Rightarrow> (string, pyval) dict \<Rightarrow> response" where
  "handle_task_status orch request =
     (let tid = py_get request ''task_id''
      in if \<not> hashable tid then Uncaught TypeError
         else case tid of
                PStr k \<Rightarrow>
                  (case get_task_status (state_manager orch) k of
                     None \<Rightarrow> Sent (PDict [(''error'', PStr msg_not_found)])
                   | Some t \<Rightarrow> Sent (task_dict t))
              | _ \<Rightarrow> Sent (PDict [(''error'', PStr msg_not_found)]))"

definition handle_client ::
  "(string \<Rightarrow> string) \<Rightarrow> Orchestrator \<Rightarrow> string \<Rightarrow> (string, pyval) dict
     \<Rightarrow> response \<times> Orchestrator" where
  "handle_client H orch new_id request =
     (if dict_get request ''token'' = None
      then (if py_get request ''action'' = PStr ''login''
            then (handle_login H request, orch)
            else (Sent (PDict [(''error'', PStr msg_auth_required)]), orch))
      else if \<not> verify_token H (py_get request ''token'')
      then (Sent (PDict [(''error'', PStr msg_invalid_token)]), orch)
      else (let action = py_get request ''action''
            in if action = PStr ''submit_task'' then handle_submit_task H orch new_id request
               else if action = PStr ''task_status'' then (handle_task_status orch request, orch)
               else (Nothing, orch)))"

text \<open>
  The tasks created by a sequence of authenticated \<open>submit_task\<close> requests served one
  after the other, each request given with the UUID drawn for it.
\<close>

fun submitted_tasks ::
  "(string \<Rightarrow> string) \<Rightarrow> Orchestrator \<Rightarrow> (string \<times> (string, pyval) dict) list
     \<Rightarrow> Task list" where
  "submitted_tasks H orch [] = []"
| "submitted_tasks H orch ((new_id, request) # rest) =
     fst (submitted_task H orch new_id request)
       # submitted_tasks H (snd (handle_submit_task H orch new_id request)) rest"

subsection \<open>Worker endpoint\<close>

text \<open>One pass of the \<open>monitor_workers\<close> loop, at time \<open>now\<close>.\<close>

definition monitor_step :: "Orchestrator \<Rightarrow> real \<Rightarrow> Orchestrator" where
  "monitor_step orch now =
     (let (active_workers, st') = check_dead_workers (state_manager orch) now
      in orch\<lparr>state_manager := st',
              load_balancer := update_workers (load_balancer orch) active_workers\<rparr>)"

text \<open>
  One pass of the \<open>distribute_tasks\<close> loop. What the network does is an input:
  \<open>Delivered\<close> (connect and send succeed), \<open>ConnectionRefused\<close> (the exception the loop
  catches), \<open>ConnectFailed\<close> (any other exception raised before or by \<open>connect\<close>: a
  worker id without a port number, a timeout), \<open>SendFailed\<close> (an exception raised by
  \<open>sendall\<close>). The loop catches \<open>KeyError\<close> and \<open>ConnectionRefusedError\<close> only; any other
  exception ends the thread.

  The task that \<open>get_next_task\<close> returns is the object stored in the table under the id
  that headed the queue, so \<open>task.assigned_worker = worker_id\<close> changes that entry.
  \<open>if not worker_id\<close> also holds for the empty string.
\<close>

datatype network = Delivered | ConnectionRefused | ConnectFailed | SendFailed

datatype dispatch = Idle | Dispatched string | Requeued | ThreadDied

definition distribute_step ::
  "Orchestrator \<Rightarrow> network \<Rightarrow> dispatch \<times> Orchestrator" where
  "distribute_step orch net =
     (case pending_tasks (state_manager orch) of
        [] \<Rightarrow> (Idle, orch)
      | ref # _ \<Rightarrow>
          (case get_next_task (state_manager orch) of
             (None, st1) \<Rightarrow> (Idle, orch\<lparr>state_manager := st1\<rparr>)
           | (Some task, st1) \<Rightarrow>
               (case get_next_worker (load_balancer orch) of
                  (w, lb1) \<Rightarrow>
                    if w = None \<or> w = Some []
                    then (Requeued, orch\<lparr>state_manager := add_task st1 task, load_balancer := lb1\<rparr>)
                    else
                      (let worker_id = the w;
                           assigned = st1\<lparr>tasks := dict_set (tasks st1) ref
                                          (task\<lparr>assigned_worker := Some worker_id\<rparr>)\<rparr>;
                           requeued = add_task st1 (task\<lparr>assigned_worker := None\<rparr>)
                       in case dict_get (workers st1) worker_id of
                            None \<Rightarrow>
                              (Requeued, orch\<lparr>state_manager := requeued, load_balancer := lb1\<rparr>)
                          | Some entry \<Rightarrow>
                              (case net of
                                 Delivered \<Rightarrow>
                                   (Dispatched worker_id,
                                    orch\<lparr>state_manager := assigned, load_balancer := lb1\<rparr>)
                               | ConnectionRefused \<Rightarrow>
                                   (Requeued,
                                    orch\<lparr>state_manager := requeued, load_balancer := lb1\<rparr>)
                               | ConnectFailed \<Rightarrow>
                                   (ThreadDied,
                                    orch\<lparr>state_manager := st1, load_balancer := lb1\<rparr>)
                               | SendFailed \<Rightarrow>
                                   (ThreadDied,
                                    orch\<lparr>state_manager := assigned, load_balancer := lb1\<rparr>))))))"

section \<open>orchestrator/state\_manager.py: snapshots\<close>

text \<open>
  \<open>json.dumps\<close> writes a tuple as a JSON array and \<open>json.loads\<close> reads an array as a list:
  \<open>json_value v\<close> is the object that \<open>json.loads(json.dumps(v))\<close> builds. Both are library
  functions; the bytes between them are represented by the document they encode.
\<close>

fun json_value :: "pyval \<Rightarrow> pyval" where
  "json_value (PTuple xs) = PList (map json_value xs)"
| "json_value (PList xs) = PList (map json_value xs)"
| "json_value (PDict kvs) = PDict (map (\<lambda>kv. (fst kv, json_value (snd kv))) kvs)"
| "json_value v = v"

text \<open>
  The argument \<open>snapshot_json\<close> of \<open>load_state_snapshot\<close>: bytes that are not UTF-8, text
  that is not JSON, or the text of a JSON document, given as the object \<open>json.loads\<close>
  builds from it.
\<close>

datatype snapshot_bytes = NotUtf8 | NotJson | Json pyval

definition worker_dict :: "worker_entry \<Rightarrow> pyval" where
  "worker_dict e = PDict [(''addr'', addr e), (''last_heartbeat'', PFloat (last_heartbeat e))]"

definition get_state_snapshot :: "StateManager \<Rightarrow> snapshot_bytes" where
  "get_state_snapshot st =
     Json (json_value
       (PDict [(''tasks'', PDict (map (\<lambda>kv. (fst kv, task_dict (snd kv))) (tasks st))),
               (''pending_tasks'', PList (map PStr (pending_tasks st))),
               (''workers'', PDict (map (\<lambda>kv. (fst kv, worker_dict (snd kv))) (workers st)))]))"

text \<open>
  The store is typed: ids and statuses are strings, timestamps are integers, the queue is
  a list of strings, a worker entry has an address and a heartbeat time. Python would
  store any JSON value in these places; the readers below give \<open>None\<close> for a value of
  another shape, and loading such a snapshot has no result in this model.
\<close>

fun as_str :: "pyval \<Rightarrow> string option" where
  "as_str (PStr s) = Some s"
| "as_str v = None"

fun as_int :: "pyval \<Rightarrow> int option" where
  "as_int (PInt i) = Some i"
| "as_int v = None"

fun as_opt_str :: "pyval \<Rightarrow> string option option" where
  "as_opt_str PNone = Some None"
| "as_opt_str (PStr s) = Some (Some s)"
| "as_opt_str v = None"

fun as_str_list :: "pyval list \<Rightarrow> string list option" where
  "as_str_list [] = Some []"
| "as_str_list (v # vs) =
     (case (as_str v, as_str_list vs) of (Some s, Some ss) \<Rightarrow> Some (s # ss) | _ \<Rightarrow> None)"

fun as_worker :: "pyval \<Rightarrow> worker_entry option" where
  "as_worker (PDict [(k1, a), (k2, PFloat h)]) =
     (if k1 = ''addr'' \<and> k2 = ''last_heartbeat''
      then Some \<lparr>addr = a, last_heartbeat = h\<rparr> else None)"
| "as_worker v = None"

fun as_workers :: "(string, pyval) dict \<Rightarrow> (string, worker_entry) dict option" where
  "as_workers [] = Some []"
| "as_workers ((k, v) # kvs) =
     (case (as_worker v, as_workers kvs) of
        (Some e, Some es) \<Rightarrow> Some ((k, e) # es)
      | _ \<Rightarrow> None)"

text \<open>
  \<open>Task(**t_data)\<close>. The generated constructor raises \<open>TypeError\<close> for a keyword that is
  not a field and when \<open>id\<close> or \<open>client_id\<close> is missing; the other fields have defaults.
\<close>

datatype 'a built = Built 'a | Fails py_error | Untyped

definition task_fields :: "string list" where
  "task_fields = [''id'', ''client_id'', ''status'', ''data'', ''lamport_ts'',
                  ''assigned_worker'', ''result'']"

definition py_default :: "(string, pyval) dict \<Rightarrow> string \<Rightarrow> pyval \<Rightarrow> pyval" where
  "py_default d k v = (case dict_get d k of None \<Rightarrow> v | Some x \<Rightarrow> x)"

definition Task_init :: "(string, pyval) dict \<Rightarrow> Task built" where
  "Task_init kw =
     (if \<not> list_all (\<lambda>k. k \<in> set task_fields) (keys kw) then Fails TypeError
      else case (dict_get kw ''id'', dict_get kw ''client_id'') of
        (Some i, Some c) \<Rightarrow>
          (case (as_str i, as_str c, as_str (py_default kw ''status'' (PStr ''PENDING'')),
                 as_int (py_default kw ''lamport_ts'' (PInt 0)),
                 as_opt_str (py_default kw ''assigned_worker'' PNone)) of
             (Some i', Some c', Some s, Some l, Some w) \<Rightarrow>
               Built \<lparr>task_id = i', client_id = c', status = s,
                      data = py_default kw ''data'' (PDict []),
                      lamport_ts = l, assigned_worker = w,
                      result = py_default kw ''result'' PNone\<rparr>
           | _ \<Rightarrow> Untyped)
      | _ \<Rightarrow> Fails TypeError)"

text \<open>
  The comprehension \<open>{tid: Task(**t_data) for tid, t_data in state["tasks"].items()}\<close>:
  the first record that \<open>Task\<close> rejects raises, whatever the other records hold.
\<close>

fun load_tasks :: "(string, pyval) dict \<Rightarrow> (string, Task) dict built" where
  "load_tasks [] = Built []"
| "load_tasks ((tid, t_data) # rest) =
     (case (case t_data of PDict kw \<Rightarrow> Task_init kw | _ \<Rightarrow> Fails TypeError) of
        Fails e \<Rightarrow> Fails e
      | r \<Rightarrow>
          (case load_tasks rest of
             Fails e \<Rightarrow> Fails e
           | Untyped \<Rightarrow> Untyped
           | Built ts \<Rightarrow> (case r of Built t \<Rightarrow> Built ((tid, t) # ts) | _ \<Rightarrow> Untyped)))"

text \<open>The loop that finds \<open>max_ts\<close>, started with \<open>max_ts = m\<close>.\<close>

fun max_lamport_ts :: "Task list \<Rightarrow> int \<Rightarrow> int" where
  "max_lamport_ts [] m = m"
| "max_lamport_ts (task # rest) m =
     max_lamport_ts rest (if lamport_ts task > m then lamport_ts task else m)"

text \<open>
  How \<open>load_state_snapshot\<close> ends: it returns after the clock is set, it logs an exception
  that its \<open>except\<close> clause catches (\<open>JSONDecodeError\<close>, \<open>KeyError\<close>) and returns, or an
  exception it does not catch leaves it. Each comes with the store and the clock as they
  are at that moment: the three attributes are assigned one after the other.
\<close>

datatype outcome = Synced | Logged py_error | Raised py_error

definition load_state_snapshot ::
  "StateManager \<Rightarrow> LamportClock \<Rightarrow> snapshot_bytes
     \<Rightarrow> (outcome \<times> StateManager \<times> LamportClock) option" where
  "load_state_snapshot st clock snapshot_json =
     (case snapshot_json of
        NotUtf8 \<Rightarrow> Some (Raised UnicodeDecodeError, st, clock)
      | NotJson \<Rightarrow> Some (Logged JSONDecodeError, st, clock)
      | Json (PDict state) \<Rightarrow>
          (case dict_get state ''tasks'' of
             None \<Rightarrow> Some (Logged (KeyError ''tasks''), st, clock)
           | Some (PDict t_items) \<Rightarrow>
               (case load_tasks t_items of
                  Fails e \<Rightarrow> Some (Raised e, st, clock)
                | Untyped \<Rightarrow> None
                | Built ts \<Rightarrow>
                    (let st1 = st\<lparr>tasks := ts\<rparr>
                     in case dict_get state ''pending_tasks'' of
                          None \<Rightarrow> Some (Logged (KeyError ''pending_tasks''), st1, clock)
                        | Some (PList q_items) \<Rightarrow>
                            (case as_str_list q_items of
                               None \<Rightarrow> None
                             | Some q \<Rightarrow>
                                 (let st2 = st1\<lparr>pending_tasks := q\<rparr>
                                  in case dict_get state ''workers'' of
                                       None \<Rightarrow> Some (Logged (KeyError ''workers''), st2, clock)
                                     | Some (PDict w_items) \<Rightarrow>
                                         (case as_workers w_items of
                                            None \<Rightarrow> None
                                          | Some ws \<Rightarrow>
                                              Some (Synced, st2\<lparr>workers := ws\<rparr>,
                                                    set_time clock
                                                      (max_lamport_ts (map snd ts) 0)))
                                     | Some _ \<Rightarrow> None))
                        | Some _ \<Rightarrow> None))
           | Some _ \<Rightarrow> Some (Raised AttributeError, st, clock))
      | Json _ \<Rightarrow> Some (Raised TypeError, st, clock))"

text \<open>
  The specification's words for the clock after a load: its time is the maximum
  \<open>lamport_ts\<close> over all tasks, that is, the \<open>lamport_ts\<close> of some task and not below the
  \<open>lamport_ts\<close> of any.
\<close>

definition is_max_lamport_ts :: "StateManager \<Rightarrow> int \<Rightarrow> bool" where
  "is_max_lamport_ts st m =
     (list_ex (\<lambda>kv. lamport_ts (snd kv) = m) (tasks st)
      \<and> list_all (\<lambda>kv. lamport_ts (snd kv) \<le> m) (tasks st))"

text \<open>A store as \<open>json.loads\<close> leaves it: no tuple in any \<open>data\<close>, \<open>result\<close> or \<open>addr\<close>.\<close>

fun no_tuple :: "pyval \<Rightarrow> bool" where
  "no_tuple (PTuple xs) = False"
| "no_tuple (PList xs) = list_all no_tuple xs"
| "no_tuple (PDict kvs) = list_all (\<lambda>kv. no_tuple (snd kv)) kvs"
| "no_tuple v = True"

definition json_task :: "Task \<Rightarrow> Task" where
  "json_task t = t\<lparr>data := json_value (data t), result := json_value (result t)\<rparr>"

definition json_worker :: "worker_entry \<Rightarrow> worker_entry" where
  "json_worker e = e\<lparr>addr := json_value (addr e)\<rparr>"

definition json_state :: "StateManager \<Rightarrow> StateManager" where
  "json_state st =
     \<lparr>tasks = map (\<lambda>kv. (fst kv, json_task (snd kv))) (tasks st),
      pending_tasks = pending_tasks st,
      workers = map (\<lambda>kv. (fst kv, json_worker (snd kv))) (workers st)\<rparr>"

definition no_tuples :: "StateManager \<Rightarrow> bool" where
  "no_tuples st =
     (list_all (\<lambda>kv. no_tuple (data (snd kv)) \<and> no_tuple (result (snd kv))) (tasks st)
      \<and> list_all (\<lambda>kv. no_tuple (addr (snd kv))) (workers st))"

section \<open>Runs of the orchestrator\<close>

text \<open>
  The operations that change the store, as the threads of a primary perform them, each
  one atomic: \<open>add_task\<close> (by a submission, or by any caller holding a task),
  \<open>get_next_task\<close>, a heartbeat, the liveness monitor's \<open>check_dead_workers\<close>,
  \<open>update_task_status\<close>, and one pass of the dispatch loop with its re-queue paths.
\<close>

datatype op =
    AddTask Task
  | GetNextTask
  | Heartbeat string pyval real
  | CheckDeadWorkers real
  | UpdateTaskStatus string string pyval
  | Distribute network

fun apply_op :: "Orchestrator \<Rightarrow> op \<Rightarrow> Orchestrator" where
  "apply_op orch (AddTask task) =
     orch\<lparr>state_manager := add_task (state_manager orch) task\<rparr>"
| "apply_op orch GetNextTask =
     orch\<lparr>state_manager := snd (get_next_task (state_manager orch))\<rparr>"
| "apply_op orch (Heartbeat worker_id worker_addr now) =
     orch\<lparr>state_manager := update_worker_heartbeat (state_manager orch) worker_id worker_addr now\<rparr>"
| "apply_op orch (CheckDeadWorkers now) = monitor_step orch now"
| "apply_op orch (UpdateTaskStatus tid new_status new_result) =
     orch\<lparr>state_manager := update_task_status (state_manager orch) tid new_status new_result\<rparr>"
| "apply_op orch (Distribute net) = snd (distribute_step orch net)"

fun run :: "Orchestrator \<Rightarrow> op list \<Rightarrow> Orchestrator" where
  "run orch [] = orch"
| "run orch (x # xs) = run (apply_op orch x) xs"

text \<open>The two properties of a store that the queue invariant speaks of.\<close>

definition queued_are_known :: "StateManager \<Rightarrow> bool" where
  "queued_are_known st = list_all (\<lambda>tid. tid \<in> set (keys (tasks st))) (pending_tasks st)"

definition queued_are_pending :: "StateManager \<Rightarrow> bool" where
  "queued_are_pending st =
     list_all (\<lambda>tid. case dict_get (tasks st) tid of
                        None \<Rightarrow> False
                      | Some t \<Rightarrow> status t = ''PENDING'')
       (pending_tasks st)"

text \<open>The invariant of the store that the plain runs below keep.\<close>

definition queue_invariant :: "StateManager \<Rightarrow> bool" where
  "queue_invariant st =
     (wf_dict (tasks st) \<and> distinct (pending_tasks st) \<and> queued_are_pending st)"

text \<open>
  The runs in which every task enters the queue as the submission path and the liveness
  monitor put it there: \<open>add_task\<close> is given a PENDING task under an id that is new to the
  table, \<open>update_task_status\<close> is not applied to a task that is in the queue, and no pass
  of the dispatch loop re-queues.
\<close>

fun plain_op :: "Orchestrator \<Rightarrow> op \<Rightarrow> bool" where
  "plain_op orch (AddTask task) =
     (status task = ''PENDING'' \<and> task_id task \<notin> set (keys (tasks (state_manager orch))))"
| "plain_op orch (UpdateTaskStatus tid new_status new_result) =
     (tid \<notin> set (pending_tasks (state_manager orch)))"
| "plain_op orch (Distribute net) = (fst (distribute_step orch net) \<noteq> Requeued)"
| "plain_op orch x = True"

fun plain_run :: "Orchestrator \<Rightarrow> op list \<Rightarrow> bool" where
  "plain_run orch [] = True"
| "plain_run orch (x # xs) = (plain_op orch x \<and> plain_run (apply_op orch x) xs)"

section \<open>Example states\<close>

text \<open>
  The values of the specification's scenarios: a task of \<open>user1\<close>, the workers
  \<open>localhost_60001\<close> to \<open>localhost_60003\<close>.
\<close>

definition task1 :: Task where
  "task1 = \<lparr>task_id = ''t1'', client_id = ''user1'', status = ''PENDING'',
             data = PDict [(''description'', PStr ''x''), (''duration'', PInt 1)],
             lamport_ts = 1, assigned_worker = None, result = PNone\<rparr>"

definition task1_done :: Task where
  "task1_done = task1\<lparr>status := ''COMPLETED'', assigned_worker := Some ''localhost_60001'',
                      result := PDict [(''message'', PStr ''ok'')]\<rparr>"

definition state_done :: StateManager where
  "state_done = init_state\<lparr>tasks := [(''t1'', task1_done)]\<rparr>"

definition orch_queued :: Orchestrator where
  "orch_queued = init_orchestrator\<lparr>state_manager := add_task init_state task1\<rparr>"

text \<open>
  The same, after \<open>localhost_60001\<close> sent a heartbeat at time 100 and the monitor ran at
  time 101.
\<close>

definition orch_one_worker :: Orchestrator where
  "orch_one_worker =
     monitor_step
       (orch_queued\<lparr>state_manager :=
          update_worker_heartbeat (state_manager orch_queued) ''localhost_60001''
            (PTuple [PStr ''127.0.0.1'', PInt 40000]) 100\<rparr>) 101"

definition three_workers :: "string list" where
  "three_workers = [''localhost_60002'', ''localhost_60001'', ''localhost_60003'']"

text \<open>
  Two workers, \<open>localhost_60002\<close> silent since time 90: at time 100 it is dead and
  \<open>localhost_60001\<close> is not.
\<close>

definition state_two_workers :: StateManager where
  "state_two_workers =
     \<lparr>tasks = [(''t1'', task1\<lparr>status := ''IN_PROGRESS'', assigned_worker := Some ''localhost_60002''\<rparr>),
               (''t2'', task1\<lparr>task_id := ''t2'', status := ''IN_PROGRESS'',
                              assigned_worker := Some ''localhost_60001''\<rparr>),
               (''t3'', task1\<lparr>task_id := ''t3''\<rparr>)],
      pending_tasks = [''t3''],
      workers = [(''localhost_60001'', \<lparr>addr = PTuple [PStr ''127.0.0.1'', PInt 40000], last_heartbeat = 98\<rparr>),
                 (''localhost_60002'', \<lparr>addr = PTuple [PStr ''127.0.0.1'', PInt 40001], last_heartbeat = 90\<rparr>)]\<rparr>"

text \<open>
  A store with one worker registered by a heartbeat (its address is the tuple that
  \<open>recvfrom\<close> gave), a store as a backup holds it after a load, and a store with one
  queued task.
\<close>

definition state_heartbeat :: StateManager where
  "state_heartbeat =
     update_worker_heartbeat init_state ''localhost_60001''
       (PTuple [PStr ''127.0.0.1'', PInt 40000]) 100"

definition state_loaded :: StateManager where
  "state_loaded =
     \<lparr>tasks = [(''t1'', task1)], pending_tasks = [''t1''],
      workers = [(''localhost_60001'',
                  \<lparr>addr = PList [PStr ''127.0.0.1'', PInt 40000], last_heartbeat = 100\<rparr>)]\<rparr>"

definition state_queued :: StateManager where
  "state_queued = add_task init_state task1"

text \<open>
  Two runs. In the first a task is submitted, a worker registers, the task is dispatched
  to it, and the worker is found dead. In the second a completion arrives for a task
  that is in the queue.
\<close>

definition rescue_run :: "op list" where
  "rescue_run =
     [AddTask task1,
      Heartbeat ''localhost_60001'' (PTuple [PStr ''127.0.0.1'', PInt 40000]) 100,
      CheckDeadWorkers 101,
      Distribute Delivered,
      CheckDeadWorkers 110]"

definition late_completion_run :: "op list" where
  "late_completion_run = [AddTask task1, UpdateTaskStatus ''t1'' ''COMPLETED'' (PStr ''late'')]"

section \<open>Dictionary lemmas\<close>

lemma dict_get_dict_set: "dict_get (dict_set d k v) k' = (if k' = k then Some v else dict_get d k')"
  by (induction d) (auto simp: dict_get_def)

lemma keys_dict_set:
  "keys (dict_set d k v) = (if k \<in> set (keys d) then keys d else keys d @ [k])"
  by (induction d) (force simp: keys_def)+

lemma dict_set_dict_set: "dict_set (dict_set d k v) k w = dict_set d k w"
  by (induction d) auto

lemma dict_get_None_iff: "dict_get d k = None \<longleftrightarrow> k \<notin> set (keys d)"
  by (simp add: dict_get_def keys_def map_of_eq_None_iff)

section \<open>Lamport clock\<close>

lemma increments_fst: "fst (increments n c) = map (\<lambda>i. c + 1 + int i) [0..<n]"
proof (induction n arbitrary: c)
  case 0
  show ?case by simp
next
  case (Suc n)
  have "[0..<Suc n] = 0 # map Suc [0..<n]"
    by (simp add: upt_conv_Cons map_Suc_upt del: upt_Suc)
  then have "map (\<lambda>i. c + 1 + int i) [0..<Suc n] = (c + 1) # map (\<lambda>i. c + 1 + 1 + int i) [0..<n]"
    by (simp add: comp_def add.assoc del: upt_Suc)
  moreover have "fst (increments (Suc n) c) = (c + 1) # fst (increments n (c + 1))"
    by (simp add: increment_def split: prod.splits)
  ultimately show ?case
    using Suc [of "c + 1"] by simp
qed

lemma increments_sorted: "sorted_wrt (<) (fst (increments n c))"
  unfolding increments_fst
  by (simp add: sorted_wrt_map sorted_wrt_iff_nth_less)

lemma submitted_task_stamp:
  "lamport_ts (fst (submitted_task H orch new_id request)) = lamport_clock orch + 1"
  by (simp add: submitted_task_def increment_def Let_def)

lemma handle_submit_task_clock:
  "lamport_clock (snd (handle_submit_task H orch new_id request)) = lamport_clock orch + 1"
  by (simp add: handle_submit_task_def submitted_task_def increment_def Let_def)

lemma submitted_tasks_above:
  "\<forall>t \<in> set (submitted_tasks H orch reqs). lamport_clock orch < lamport_ts t"
proof (induction reqs arbitrary: orch)
  case Nil
  show ?case by simp
next
  case (Cons r reqs)
  obtain new_id request where r: "r = (new_id, request)" by (cases r)
  let ?orch1 = "snd (handle_submit_task H orch new_id request)"
  from Cons [of ?orch1] r show ?case
    by (fastforce simp: submitted_task_stamp handle_submit_task_clock)
qed

lemma submitted_tasks_sorted:
  "sorted_wrt (<) (map lamport_ts (submitted_tasks H orch reqs))"
proof (induction reqs arbitrary: orch)
  case Nil
  show ?case by simp
next
  case (Cons r reqs)
  obtain new_id request where r: "r = (new_id, request)" by (cases r)
  let ?orch1 = "snd (handle_submit_task H orch new_id request)"
  have "\<forall>t \<in> set (submitted_tasks H ?orch1 reqs). lamport_clock orch + 1 < lamport_ts t"
    using submitted_tasks_above [of H ?orch1 reqs] by (simp add: handle_submit_task_clock)
  with Cons [of ?orch1] r show ?case
    by (simp add: submitted_task_stamp)
qed

text \<open>
  C5. The timestamps returned by any number of consecutive \<open>increment\<close> calls on one
  clock are strictly increasing, and so are the \<open>lamport_ts\<close> of the tasks created by any
  sequence of \<open>submit_task\<close> requests served by one orchestrator.
\<close>

theorem lamport_strictly_increasing:
  "sorted_wrt (<) (fst (increments n c)) \<and>
   sorted_wrt (<) (map lamport_ts (submitted_tasks H orch reqs))"
  by (simp add: increments_sorted submitted_tasks_sorted)

section \<open>Task completion\<close>

lemma update_task_status_twice:
  "update_task_status (update_task_status st tid s r) tid s r = update_task_status st tid s r"
  by (cases "dict_get (tasks st) tid")
     (simp_all add: update_task_status_def dict_get_dict_set dict_set_dict_set)

lemma update_task_status_unknown:
  "tid \<notin> set (keys (tasks st)) \<Longrightarrow> update_task_status st tid s r = st"
  by (simp add: update_task_status_def dict_get_None_iff [symmetric])

text \<open>
  C8. Applying \<open>update_task_status(task_id, "COMPLETED", result)\<close> twice gives the state
  that applying it once gives, and for a \<open>task_id\<close> that is not a key of the task table
  the state is left as it was.
\<close>

theorem completion_idempotent:
  "update_task_status (update_task_status st tid ''COMPLETED'' r) tid ''COMPLETED'' r
     = update_task_status st tid ''COMPLETED'' r
   \<and> (tid \<notin> set (keys (tasks st)) \<longrightarrow> update_task_status st tid ''COMPLETED'' r = st)"
  by (simp add: update_task_status_twice update_task_status_unknown)

theorem completion_idempotent_witness:
  "''t2'' \<notin> set (keys (tasks state_done))
   \<and> update_task_status state_done ''t2'' ''COMPLETED'' (PStr ''late'') = state_done
   \<and> update_task_status (update_task_status state_done ''t1'' ''COMPLETED'' (PStr ''late''))
        ''t1'' ''COMPLETED'' (PStr ''late'')
      = update_task_status state_done ''t1'' ''COMPLETED'' (PStr ''late'')"
  using completion_idempotent [of state_done "''t2''" "PStr ''late''"]
        completion_idempotent [of state_done "''t1''" "PStr ''late''"]
  by (simp add: keys_def state_done_def init_state_def)

lemma update_task_status_known:
  "dict_get (tasks st) tid = Some t \<Longrightarrow>
   dict_get (tasks (update_task_status st tid s r)) tid = Some (t\<lparr>status := s, result := r\<rparr>)"
  by (simp add: update_task_status_def dict_get_dict_set)

text \<open>
  C10. For a \<open>task_id\<close> present in the task table, \<open>update_task_status\<close> overwrites the
  task's result on every call, whatever it held: with the given result, and with none
  when the call leaves the result argument out.
\<close>

theorem update_task_status_overwrites_result:
  "dict_get (tasks st) tid = Some t \<Longrightarrow>
   dict_get (tasks (update_task_status st tid s r)) tid = Some (t\<lparr>status := s, result := r\<rparr>)
   \<and> dict_get (tasks (update_task_status_default st tid s)) tid
       = Some (t\<lparr>status := s, result := PNone\<rparr>)"
  by (simp add: update_task_status_default_def update_task_status_known)

theorem update_task_status_overwrites_result_witness:
  "dict_get (tasks state_done) ''t1'' = Some task1_done
   \<and> result task1_done = PDict [(''message'', PStr ''ok'')]
   \<and> dict_get (tasks (update_task_status_default state_done ''t1'' ''FAILED'')) ''t1''
       = Some (task1_done\<lparr>status := ''FAILED'', result := PNone\<rparr>)"
proof -
  have h: "dict_get (tasks state_done) ''t1'' = Some task1_done"
    by (simp add: state_done_def init_state_def dict_get_def)
  show ?thesis
    using h update_task_status_overwrites_result [OF h, of "''FAILED''" PNone]
    by (simp add: task1_done_def)
qed

section \<open>Dispatch loop\<close>

lemma orch_queued_eval:
  "orch_queued =
     \<lparr>state_manager = \<lparr>tasks = [(''t1'', task1)], pending_tasks = [''t1''], workers = []\<rparr>,
      lamport_clock = 0,
      load_balancer = \<lparr>lb_workers = [], current_index = 0\<rparr>\<rparr>"
  by (simp add: orch_queued_def init_orchestrator_def init_state_def init_balancer_def
      add_task_def task1_def)

lemma orch_one_worker_eval:
  "orch_one_worker =
     \<lparr>state_manager =
        \<lparr>tasks = [(''t1'', task1)], pending_tasks = [''t1''],
         workers = [(''localhost_60001'',
                     \<lparr>addr = PTuple [PStr ''127.0.0.1'', PInt 40000], last_heartbeat = 100\<rparr>)]\<rparr>,
      lamport_clock = 0,
      load_balancer = \<lparr>lb_workers = [''localhost_60001''], current_index = 0\<rparr>\<rparr>"
  by (simp add: orch_one_worker_def orch_queued_eval monitor_step_def check_dead_workers_def
      dead_workers_def is_dead_def WORKER_TIMEOUT_def update_worker_heartbeat_def
      update_workers_def keys_def Let_def)

text \<open>
  C2, evaluated. With \<open>t1\<close> queued as PENDING and no worker installed, one pass of the
  dispatch loop puts \<open>t1\<close> back in the queue with status IN\_PROGRESS; with
  \<open>localhost_60001\<close> installed and the connection refused, likewise. \<open>get_next_task\<close> set the
  status and neither re-queue path sets it back.
\<close>

theorem requeue_leaves_in_progress:
  "distribute_step orch_queued Delivered =
     (Requeued,
      orch_queued\<lparr>state_manager :=
        \<lparr>tasks = [(''t1'', task1\<lparr>status := ''IN_PROGRESS''\<rparr>)],
         pending_tasks = [''t1''], workers = []\<rparr>\<rparr>)
   \<and> distribute_step orch_one_worker ConnectionRefused =
     (Requeued,
      orch_one_worker\<lparr>state_manager :=
        (state_manager orch_one_worker)
          \<lparr>tasks := [(''t1'', task1\<lparr>status := ''IN_PROGRESS''\<rparr>)],
           pending_tasks := [''t1'']\<rparr>\<rparr>)"
  by (simp add: orch_queued_eval orch_one_worker_eval distribute_step_def get_next_task_def
      get_next_worker_def add_task_def dict_get_def task1_def Let_def)

section \<open>Client endpoint\<close>

lemma no_token_not_login:
  "dict_get request ''token'' = None \<Longrightarrow> py_get request ''action'' \<noteq> PStr ''login'' \<Longrightarrow>
   handle_client H orch new_id request = (Sent (PDict [(''error'', PStr msg_auth_required)]), orch)"
  by (simp add: handle_client_def)

lemma token_owner_None:
  "token_owner H users token = None \<longleftrightarrow> (\<forall>u \<in> set users. token \<noteq> PStr (H (u @ SECRET_KEY)))"
  by (induction users) auto

lemma unknown_token:
  "dict_get request ''token'' = Some token \<Longrightarrow>
   \<forall>u \<in> set (keys USERS). token \<noteq> PStr (H (u @ SECRET_KEY)) \<Longrightarrow>
   handle_client H orch new_id request = (Sent (PDict [(''error'', PStr msg_invalid_token)]), orch)"
  by (simp add: handle_client_def verify_token_def token_owner_None py_get_def)

lemma login_with_strings:
  "dict_get request ''token'' = None \<Longrightarrow> py_get request ''action'' = PStr ''login'' \<Longrightarrow>
   py_get request ''username'' = PStr u \<Longrightarrow> py_get request ''password'' = PStr p \<Longrightarrow>
   handle_client H orch new_id request =
     (if dict_get USERS u = Some p then Sent (PDict [(''token'', PStr (H (u @ SECRET_KEY)))])
      else Sent (PDict [(''error'', PStr msg_bad_credentials)]), orch)"
  by (auto simp: handle_client_def handle_login_def users_get_def split: option.splits)

text \<open>
  C9, evaluated. A login request that names a user who is not in \<open>USERS\<close> and carries no
  password is answered with a token: \<open>USERS.get(username)\<close> and \<open>request.get("password")\<close>
  are both None, and the comparison holds.
\<close>

theorem login_unknown_user_no_password:
  "dict_get USERS ''ghost'' = None
   \<and> handle_client H init_orchestrator new_id
        [(''action'', PStr ''login''), (''username'', PStr ''ghost'')]
      = (Sent (PDict [(''token'', PStr (H (''ghost'' @ SECRET_KEY)))]), init_orchestrator)"
  by (simp add: handle_client_def handle_login_def users_get_def py_get_def dict_get_def
      USERS_def Let_def)

section \<open>Round-robin dispatcher\<close>

lemma count_mod:
  "r < N \<Longrightarrow> length (filter (\<lambda>i. i mod N = r) [0..<k]) = k div N + (if r < k mod N then 1 else 0)"
proof (induction k)
  case 0
  then show ?case by simp
next
  case (Suc k)
  then show ?case
    by (auto simp: div_Suc mod_Suc)
qed

lemma update_workers_index:
  "ws \<noteq> [] \<Longrightarrow> current_index (update_workers lb ws) < length (lb_workers (update_workers lb ws))"
  by (auto simp: update_workers_def Let_def)

lemma get_next_worker_in_range:
  "current_index lb < length (lb_workers lb) \<Longrightarrow>
   get_next_worker lb =
     (Some (lb_workers lb ! current_index lb),
      lb\<lparr>current_index := (current_index lb + 1) mod length (lb_workers lb)\<rparr>)"
  by (auto simp: get_next_worker_def Let_def)

lemma next_workers_picks:
  "current_index lb < length (lb_workers lb) \<Longrightarrow>
   fst (next_workers k lb) =
     map (\<lambda>i. Some (lb_workers lb ! ((current_index lb + i) mod length (lb_workers lb)))) [0..<k]"
proof (induction k arbitrary: lb)
  case 0
  show ?case by simp
next
  case (Suc k)
  let ?N = "length (lb_workers lb)"
  let ?lb1 = "lb\<lparr>current_index := (current_index lb + 1) mod ?N\<rparr>"
  have N: "0 < ?N" using Suc.prems by (cases "lb_workers lb") auto
  have step: "fst (next_workers (Suc k) lb) =
      Some (lb_workers lb ! current_index lb) # fst (next_workers k ?lb1)"
    using Suc.prems by (simp add: get_next_worker_in_range split: prod.splits)
  have "current_index ?lb1 < length (lb_workers ?lb1)" using N by simp
  from Suc.IH [OF this]
  have ih: "fst (next_workers k ?lb1) =
      map (\<lambda>i. Some (lb_workers lb ! ((current_index lb + Suc i) mod ?N))) [0..<k]"
    by (simp add: mod_add_left_eq)
  have "[0..<Suc k] = 0 # map Suc [0..<k]"
    by (simp add: upt_conv_Cons map_Suc_upt del: upt_Suc)
  then have "map (\<lambda>i. Some (lb_workers lb ! ((current_index lb + i) mod ?N))) [0..<Suc k] =
      Some (lb_workers lb ! current_index lb)
        # map (\<lambda>i. Some (lb_workers lb ! ((current_index lb + Suc i) mod ?N))) [0..<k]"
    using Suc.prems by (simp add: comp_def del: upt_Suc)
  with step ih show ?case by simp
qed

lemma count_list_map_filter:
  "count_list (map f xs) y = length (filter (\<lambda>x. f x = y) xs)"
  by (induction xs) auto

lemma picks_count:
  assumes "distinct ws" "w \<in> set ws" "c < length ws"
  shows "\<exists>r < length ws.
     count_list (map (\<lambda>i. Some (ws ! ((c + i) mod length ws))) [0..<k]) (Some w)
       = k div length ws + (if r < k mod length ws then 1 else 0)"
proof -
  let ?N = "length ws"
  let ?rs = "rotate c ws"
  have N: "0 < ?N" using assms(3) by (cases ws) auto
  have "w \<in> set ?rs" using assms(2) by simp
  then obtain r where "r < length ?rs" "?rs ! r = w"
    unfolding in_set_conv_nth by blast
  then have r: "r < ?N" "?rs ! r = w" by simp_all
  have dist: "distinct ?rs" using assms(1) by simp
  have pos: "ws ! ((c + i) mod ?N) = ?rs ! (i mod ?N)" for i
    using N by (simp add: nth_rotate mod_add_right_eq)
  have "ws ! ((c + i) mod ?N) = w \<longleftrightarrow> i mod ?N = r" for i
  proof -
    have "i mod ?N < length ?rs" using N by simp
    moreover have "r < length ?rs" using r(1) by simp
    ultimately have "?rs ! (i mod ?N) = ?rs ! r \<longleftrightarrow> i mod ?N = r"
      using dist nth_eq_iff_index_eq by blast
    then show ?thesis by (simp add: pos r(2))
  qed
  then have "count_list (map (\<lambda>i. Some (ws ! ((c + i) mod ?N))) [0..<k]) (Some w)
      = length (filter (\<lambda>i. i mod ?N = r) [0..<k])"
    by (simp add: count_list_map_filter)
  with r(1) show ?thesis
    by (auto simp: count_mod simp del: upt_Suc)
qed

lemma ceiling_nat_div:
  assumes "0 < N"
  shows "\<lceil>real K / real N\<rceil> = int (K div N) + (if K mod N = 0 then 0 else 1)"
proof -
  have K: "real K = real (K div N) * real N + real (K mod N)"
    by (metis div_mult_mod_eq of_nat_add of_nat_mult)
  have N: "0 < real N" using assms by simp
  have q: "real K / real N = real (K div N) + real (K mod N) / real N"
    using N by (simp add: K add_divide_distrib)
  show ?thesis
  proof (cases "K mod N = 0")
    case True
    then show ?thesis by (simp add: q)
  next
    case False
    have "K mod N < N" using assms by simp
    then have le: "real (K mod N) / real N \<le> 1" using N by simp
    have gt: "0 < real (K mod N) / real N" using False N by simp
    have "\<lceil>real K / real N\<rceil> = int (K div N) + 1"
      by (rule ceiling_unique) (use le gt q in simp_all)
    with False show ?thesis by simp
  qed
qed


lemma get_next_worker_None:
  "fst (get_next_worker (update_workers lb ws)) = None \<longleftrightarrow> ws = []"
proof -
  have "sort ws = [] \<longleftrightarrow> ws = []"
    by (metis length_sort length_0_conv)
  then show ?thesis
    by (simp add: get_next_worker_def update_workers_def Let_def)
qed

lemma round_robin_count:
  assumes "ws \<noteq> []" "distinct ws" "w \<in> set ws"
  shows "\<exists>r < length ws.
     count_list (fst (next_workers K (update_workers lb ws))) (Some w)
       = K div length ws + (if r < K mod length ws then 1 else 0)"
proof -
  let ?lb = "update_workers lb ws"
  have ws: "lb_workers ?lb = sort ws" by (simp add: update_workers_def Let_def)
  have idx: "current_index ?lb < length (lb_workers ?lb)"
    using assms(1) by (rule update_workers_index)
  have "fst (next_workers K ?lb) =
      map (\<lambda>i. Some (sort ws ! ((current_index ?lb + i) mod length (sort ws)))) [0..<K]"
    using next_workers_picks [OF idx, of K] by (simp add: ws)
  moreover have "\<exists>r < length (sort ws).
      count_list (map (\<lambda>i. Some (sort ws ! ((current_index ?lb + i) mod length (sort ws)))) [0..<K])
        (Some w) = K div length (sort ws) + (if r < K mod length (sort ws) then 1 else 0)"
    using assms idx by (intro picks_count) (simp_all add: ws)
  ultimately show ?thesis by simp
qed

text \<open>
  C6. \<open>get_next_worker\<close> returns none exactly when the list installed by
  \<open>update_workers\<close> is empty. For a non-empty list of \<open>N\<close> distinct worker ids (the keys
  of the worker table) and \<open>K \<ge> N\<close> consecutive calls with no update in between, each
  worker id is returned \<open>\<lfloor>K/N\<rfloor>\<close> or \<open>\<lceil>K/N\<rceil>\<close> times.
\<close>

theorem round_robin_fair:
  "(fst (get_next_worker (update_workers lb ws)) = None \<longleftrightarrow> ws = []) \<and>
   (ws \<noteq> [] \<and> distinct ws \<and> length ws \<le> K \<and> w \<in> set ws \<longrightarrow>
      int (count_list (fst (next_workers K (update_workers lb ws))) (Some w))
        = \<lfloor>real K / real (length ws)\<rfloor>
      \<or> int (count_list (fst (next_workers K (update_workers lb ws))) (Some w))
        = \<lceil>real K / real (length ws)\<rceil>)"
proof (intro conjI impI)
  show "fst (get_next_worker (update_workers lb ws)) = None \<longleftrightarrow> ws = []"
    by (rule get_next_worker_None)
next
  let ?n = "count_list (fst (next_workers K (update_workers lb ws))) (Some w)"
  let ?N = "length ws"
  assume h: "ws \<noteq> [] \<and> distinct ws \<and> length ws \<le> K \<and> w \<in> set ws"
  then have N: "0 < ?N" by simp
  from h obtain r where r: "r < ?N" "?n = K div ?N + (if r < K mod ?N then 1 else 0)"
    using round_robin_count [of ws w K lb] by blast
  have fl: "\<lfloor>real K / real ?N\<rfloor> = int (K div ?N)"
    by (simp add: floor_divide_of_nat_eq)
  have ce: "\<lceil>real K / real ?N\<rceil> = int (K div ?N) + (if K mod ?N = 0 then 0 else 1)"
    using N by (rule ceiling_nat_div)
  show "int ?n = \<lfloor>real K / real ?N\<rfloor> \<or> int ?n = \<lceil>real K / real ?N\<rceil>"
  proof (cases "r < K mod ?N")
    case True
    then have "K mod ?N \<noteq> 0" by simp
    with True r(2) ce show ?thesis by simp
  next
    case False
    with r(2) fl show ?thesis by simp
  qed
qed

text \<open>Scenario S4: three workers, six dispatches, in sorted id order.\<close>

lemma three_workers_order:
  "fst (next_workers 6 (update_workers init_balancer three_workers)) =
     [Some ''localhost_60001'', Some ''localhost_60002'', Some ''localhost_60003'',
      Some ''localhost_60001'', Some ''localhost_60002'', Some ''localhost_60003'']"
  by code_simp

theorem round_robin_fair_witness:
  "three_workers \<noteq> [] \<and> distinct three_workers \<and> length three_workers \<le> 7
   \<and> ''localhost_60001'' \<in> set three_workers
   \<and> (int (count_list (fst (next_workers 7 (update_workers init_balancer three_workers)))
            (Some ''localhost_60001'')) = \<lfloor>real 7 / real (length three_workers)\<rfloor>
      \<or> int (count_list (fst (next_workers 7 (update_workers init_balancer three_workers)))
            (Some ''localhost_60001'')) = \<lceil>real 7 / real (length three_workers)\<rceil>)"
proof -
  have h: "three_workers \<noteq> [] \<and> distinct three_workers \<and> length three_workers \<le> 7
     \<and> ''localhost_60001'' \<in> set three_workers"
    by (simp add: three_workers_def)
  show ?thesis
    using h round_robin_fair [of init_balancer three_workers 7 "''localhost_60001''"]
    by blast
qed

section \<open>Worker liveness\<close>

lemma reassign_tasks_eq:
  "reassign_tasks w ts q =
     (map (\<lambda>kv. (fst kv, if held_by w (snd kv) then reset_task (snd kv) else snd kv)) ts,
      rev (map fst (filter (\<lambda>kv. held_by w (snd kv)) ts)) @ q)"
  by (induction ts arbitrary: q) (auto simp: held_by_def reset_task_def)

lemma not_held_reset: "\<not> held_by w (reset_task t)"
  by (simp add: held_by_def reset_task_def)

lemma remove_dead_workers:
  "workers (remove_dead ds st) = filter (\<lambda>kv. fst kv \<notin> set ds) (workers st)"
  by (induction ds arbitrary: st) (auto simp: dict_del_def split: prod.splits intro: filter_cong)

lemma remove_dead_tasks:
  "tasks (remove_dead ds st) =
     map (\<lambda>kv. (fst kv, if \<exists>w \<in> set ds. held_by w (snd kv) then reset_task (snd kv) else snd kv))
       (tasks st)"
proof (induction ds arbitrary: st)
  case Nil
  show ?case by simp
next
  case (Cons w ds)
  show ?case
    by (simp add: Cons.IH reassign_tasks_eq not_held_reset)
qed

lemma remove_dead_pending:
  "\<exists>front. pending_tasks (remove_dead ds st) = front @ pending_tasks st \<and>
     set front = {tid. \<exists>t. (tid, t) \<in> set (tasks st) \<and> (\<exists>w \<in> set ds. held_by w t)}"
proof (induction ds arbitrary: st)
  case Nil
  show ?case by simp
next
  case (Cons w ds)
  let ?ts1 = "map (\<lambda>kv. (fst kv, if held_by w (snd kv) then reset_task (snd kv) else snd kv)) (tasks st)"
  let ?f1 = "rev (map fst (filter (\<lambda>kv. held_by w (snd kv)) (tasks st)))"
  let ?st1 = "st\<lparr>workers := dict_del (workers st) w, tasks := ?ts1, pending_tasks := ?f1 @ pending_tasks st\<rparr>"
  have step: "remove_dead (w # ds) st = remove_dead ds ?st1"
    by (simp add: reassign_tasks_eq)
  from Cons.IH [of ?st1] obtain front where
    f: "pending_tasks (remove_dead ds ?st1) = front @ ?f1 @ pending_tasks st"
       "set front = {tid. \<exists>t. (tid, t) \<in> set ?ts1 \<and> (\<exists>w \<in> set ds. held_by w t)}"
    by auto
  have front: "tid \<in> set front \<longleftrightarrow>
      (\<exists>t. (tid, t) \<in> set (tasks st) \<and> \<not> held_by w t \<and> (\<exists>w \<in> set ds. held_by w t))" for tid
  proof
    assume "tid \<in> set front"
    then obtain t' w' where a: "(tid, t') \<in> set ?ts1" "w' \<in> set ds" "held_by w' t'"
      using f(2) by auto
    from a(1) obtain t where t: "(tid, t) \<in> set (tasks st)"
        "t' = (if held_by w t then reset_task t else t)"
      by auto
    have "\<not> held_by w t"
      using a(3) t(2) not_held_reset by auto
    with a t show "\<exists>t. (tid, t) \<in> set (tasks st) \<and> \<not> held_by w t \<and> (\<exists>w \<in> set ds. held_by w t)"
      by auto
  next
    assume "\<exists>t. (tid, t) \<in> set (tasks st) \<and> \<not> held_by w t \<and> (\<exists>w \<in> set ds. held_by w t)"
    then obtain t w' where h: "(tid, t) \<in> set (tasks st)" "\<not> held_by w t" "w' \<in> set ds" "held_by w' t"
      by auto
    then have "(tid, t) \<in> set ?ts1"
      by force
    with h show "tid \<in> set front"
      using f(2) by blast
  qed
  have "set front = {tid. \<exists>t. (tid, t) \<in> set (tasks st) \<and> \<not> held_by w t \<and> (\<exists>w \<in> set ds. held_by w t)}"
    using front by blast
  moreover have "set ?f1 = {tid. \<exists>t. (tid, t) \<in> set (tasks st) \<and> held_by w t}"
    by force
  ultimately have "set (front @ ?f1) =
      {tid. \<exists>t. (tid, t) \<in> set (tasks st) \<and> (\<exists>w \<in> set (w # ds). held_by w t)}"
    by auto
  with f(1) step show ?case
    by (intro exI [of _ "front @ ?f1"]) simp
qed

lemma dead_workers_iff:
  "w \<in> set (dead_workers st now) \<longleftrightarrow> (\<exists>e. (w, e) \<in> set (workers st) \<and> is_dead now e)"
  by (force simp: dead_workers_def)

lemma live_workers_filter:
  assumes "wf_dict (workers st)"
  shows "filter (\<lambda>kv. fst kv \<notin> set (dead_workers st now)) (workers st)
         = filter (\<lambda>kv. \<not> is_dead now (snd kv)) (workers st)"
proof (rule filter_cong [OF refl])
  fix kv assume kv: "kv \<in> set (workers st)"
  have "is_dead now e \<longleftrightarrow> is_dead now (snd kv)" if "(fst kv, e) \<in> set (workers st)" for e
  proof -
    have "distinct (map fst (workers st))" using assms by (simp add: wf_dict_def keys_def)
    moreover have "(fst kv, snd kv) \<in> set (workers st)" using kv by simp
    ultimately have "e = snd kv" using that by (meson eq_key_imp_eq_value)
    then show ?thesis by simp
  qed
  note same = this
  have "fst kv \<in> set (dead_workers st now) \<longleftrightarrow> is_dead now (snd kv)"
  proof
    assume "fst kv \<in> set (dead_workers st now)"
    then obtain e where "(fst kv, e) \<in> set (workers st)" "is_dead now e"
      unfolding dead_workers_iff by blast
    then show "is_dead now (snd kv)" using same by blast
  next
    assume "is_dead now (snd kv)"
    moreover have "(fst kv, snd kv) \<in> set (workers st)" using kv by simp
    ultimately show "fst kv \<in> set (dead_workers st now)"
      unfolding dead_workers_iff by blast
  qed
  then show "(fst kv \<notin> set (dead_workers st now)) = (\<not> is_dead now (snd kv))"
    by simp
qed

text \<open>
  C7. \<open>check_dead_workers\<close> keeps exactly the workers whose last heartbeat is not older
  than \<open>WORKER_TIMEOUT\<close>, returns the ids of the workers it keeps, and for every removed
  worker resets each task that was IN\_PROGRESS on it to PENDING with no assigned worker and
  puts its id in front of the old pending queue. The worker table is a dict: no two entries
  have the same id.
\<close>

theorem check_dead_workers_rescue:
  assumes "wf_dict (workers st)"
  shows "workers (snd (check_dead_workers st now))
           = filter (\<lambda>kv. \<not> is_dead now (snd kv)) (workers st)
       \<and> fst (check_dead_workers st now) = keys (workers (snd (check_dead_workers st now)))
       \<and> (\<forall>w e tid t.
             dict_get (workers st) w = Some e \<and> is_dead now e
             \<and> dict_get (tasks st) tid = Some t
             \<and> assigned_worker t = Some w \<and> status t = ''IN_PROGRESS''
             \<longrightarrow> dict_get (tasks (snd (check_dead_workers st now))) tid
                   = Some (t\<lparr>status := ''PENDING'', assigned_worker := None\<rparr>)
                 \<and> (\<exists>front. pending_tasks (snd (check_dead_workers st now))
                               = front @ pending_tasks st \<and> tid \<in> set front))"
proof (intro conjI allI impI)
  let ?ds = "dead_workers st now"
  have st': "snd (check_dead_workers st now) = remove_dead ?ds st"
    by (simp add: check_dead_workers_def Let_def)
  show "workers (snd (check_dead_workers st now))
           = filter (\<lambda>kv. \<not> is_dead now (snd kv)) (workers st)"
    using live_workers_filter [OF assms] by (simp add: st' remove_dead_workers)
  show "fst (check_dead_workers st now) = keys (workers (snd (check_dead_workers st now)))"
    by (simp add: check_dead_workers_def Let_def)
  fix w e tid t
  assume h: "dict_get (workers st) w = Some e \<and> is_dead now e
             \<and> dict_get (tasks st) tid = Some t
             \<and> assigned_worker t = Some w \<and> status t = ''IN_PROGRESS''"
  then have dead: "w \<in> set ?ds"
    by (auto simp: dead_workers_iff dict_get_def dest: map_of_SomeD)
  have held: "held_by w t" using h by (simp add: held_by_def)
  have mem: "(tid, t) \<in> set (tasks st)"
    using h by (auto simp: dict_get_def dest: map_of_SomeD)
  let ?g = "\<lambda>t. if \<exists>w \<in> set ?ds. held_by w t then reset_task t else t"
  have "tasks (remove_dead ?ds st) = map (\<lambda>kv. (fst kv, ?g (snd kv))) (tasks st)"
    by (rule remove_dead_tasks)
  also have "\<dots> = map (\<lambda>(k, v). (k, ?g v)) (tasks st)"
    by (simp add: case_prod_beta)
  finally have "dict_get (tasks (remove_dead ?ds st)) tid = map_option ?g (dict_get (tasks st) tid)"
    by (simp add: dict_get_def map_of_map)
  moreover have "dict_get (tasks st) tid = Some t" using h by blast
  moreover have "?g t = reset_task t" using dead held by auto
  ultimately have "dict_get (tasks (remove_dead ?ds st)) tid = Some (reset_task t)"
    by simp
  then show "dict_get (tasks (snd (check_dead_workers st now))) tid
          = Some (t\<lparr>status := ''PENDING'', assigned_worker := None\<rparr>)"
    by (simp add: st' reset_task_def)
  from remove_dead_pending [of ?ds st] obtain front where
    "pending_tasks (remove_dead ?ds st) = front @ pending_tasks st"
    "set front = {tid. \<exists>t. (tid, t) \<in> set (tasks st) \<and> (\<exists>w \<in> set ?ds. held_by w t)}"
    by blast
  with mem dead held
  show "\<exists>front. pending_tasks (snd (check_dead_workers st now)) = front @ pending_tasks st
          \<and> tid \<in> set front"
    unfolding st' by blast
qed

theorem check_dead_workers_rescue_witness:
  "wf_dict (workers state_two_workers)
   \<and> dict_get (workers state_two_workers) ''localhost_60002''
       = Some \<lparr>addr = PTuple [PStr ''127.0.0.1'', PInt 40001], last_heartbeat = 90\<rparr>
   \<and> is_dead 100 \<lparr>addr = PTuple [PStr ''127.0.0.1'', PInt 40001], last_heartbeat = 90\<rparr>
   \<and> dict_get (tasks state_two_workers) ''t1''
       = Some (task1\<lparr>status := ''IN_PROGRESS'', assigned_worker := Some ''localhost_60002''\<rparr>)
   \<and> fst (check_dead_workers state_two_workers 100) = [''localhost_60001'']
   \<and> dict_get (tasks (snd (check_dead_workers state_two_workers 100))) ''t1''
       = Some (task1\<lparr>status := ''PENDING'', assigned_worker := None\<rparr>)
   \<and> (\<exists>front. pending_tasks (snd (check_dead_workers state_two_workers 100))
                  = front @ pending_tasks state_two_workers \<and> ''t1'' \<in> set front)"
proof -
  let ?e = "\<lparr>addr = PTuple [PStr ''127.0.0.1'', PInt 40001], last_heartbeat = 90\<rparr>"
  let ?t = "task1\<lparr>status := ''IN_PROGRESS'', assigned_worker := Some ''localhost_60002''\<rparr>"
  have wf: "wf_dict (workers state_two_workers)"
    by (simp add: state_two_workers_def wf_dict_def keys_def)
  have pre: "dict_get (workers state_two_workers) ''localhost_60002'' = Some ?e
      \<and> is_dead 100 ?e
      \<and> dict_get (tasks state_two_workers) ''t1'' = Some ?t
      \<and> assigned_worker ?t = Some ''localhost_60002'' \<and> status ?t = ''IN_PROGRESS''"
    by (simp add: state_two_workers_def dict_get_def is_dead_def WORKER_TIMEOUT_def)
  have live: "filter (\<lambda>kv. \<not> is_dead 100 (snd kv)) (workers state_two_workers)
      = [(''localhost_60001'', \<lparr>addr = PTuple [PStr ''127.0.0.1'', PInt 40000], last_heartbeat = 98\<rparr>)]"
    by (simp add: state_two_workers_def is_dead_def WORKER_TIMEOUT_def)
  note inst = check_dead_workers_rescue [OF wf, of 100]
  from inst live have active: "fst (check_dead_workers state_two_workers 100) = [''localhost_60001'']"
    by (simp add: keys_def)
  from inst pre have
    "dict_get (tasks (snd (check_dead_workers state_two_workers 100))) ''t1''
       = Some (?t\<lparr>status := ''PENDING'', assigned_worker := None\<rparr>)
     \<and> (\<exists>front. pending_tasks (snd (check_dead_workers state_two_workers 100))
                  = front @ pending_tasks state_two_workers \<and> ''t1'' \<in> set front)"
    by blast
  with wf pre active show ?thesis by simp
qed

section \<open>Snapshots\<close>

lemma json_value_no_tuple: "no_tuple v \<Longrightarrow> json_value v = v"
proof (induction v)
  case (PList xs)
  then show ?case by (simp add: list_all_iff map_idI)
next
  case (PDict kvs)
  have "(fst kv, json_value (snd kv)) = kv" if "kv \<in> set kvs" for kv
  proof -
    have "no_tuple (snd kv)" using PDict.prems that by (simp add: list_all_iff)
    moreover have "snd kv \<in> Basic_BNFs.snds kv" by (cases kv) simp
    ultimately have "json_value (snd kv) = snd kv" using PDict.IH that by blast
    then show ?thesis by (cases kv) simp
  qed
  then show ?case by (simp add: map_idI)
qed simp_all

lemma Task_init_task_dict:
  "Task_init [(''id'', PStr (task_id t)), (''client_id'', PStr (client_id t)),
              (''status'', PStr (status t)), (''data'', d),
              (''lamport_ts'', PInt (lamport_ts t)),
              (''assigned_worker'', (case assigned_worker t of None \<Rightarrow> PNone | Some w \<Rightarrow> PStr w)),
              (''result'', r)]
   = Built (t\<lparr>data := d, result := r\<rparr>)"
  by (cases "assigned_worker t")
     (simp_all add: Task_init_def task_fields_def keys_def dict_get_def py_default_def)

lemma json_value_task_dict:
  "json_value (task_dict t) =
     PDict [(''id'', PStr (task_id t)), (''client_id'', PStr (client_id t)),
              (''status'', PStr (status t)), (''data'', json_value (data t)),
              (''lamport_ts'', PInt (lamport_ts t)),
              (''assigned_worker'', (case assigned_worker t of None \<Rightarrow> PNone | Some w \<Rightarrow> PStr w)),
              (''result'', json_value (result t))]"
  by (cases "assigned_worker t") (simp_all add: task_dict_def)

lemma load_tasks_roundtrip:
  "load_tasks (map (\<lambda>kv. (fst kv, json_value (task_dict (snd kv)))) ts)
     = Built (map (\<lambda>kv. (fst kv, json_task (snd kv))) ts)"
proof (induction ts)
  case Nil
  show ?case by simp
next
  case (Cons kv ts)
  obtain tid t where kv: "kv = (tid, t)" by (cases kv)
  show ?case
    using Cons.IH
    by (simp add: kv json_value_task_dict Task_init_task_dict json_task_def)
qed

lemma as_str_list_roundtrip: "as_str_list (map json_value (map PStr q)) = Some q"
  by (induction q) simp_all

lemma as_workers_roundtrip:
  "as_workers (map (\<lambda>kv. (fst kv, json_value (worker_dict (snd kv)))) ws)
     = Some (map (\<lambda>kv. (fst kv, json_worker (snd kv))) ws)"
proof (induction ws)
  case Nil
  show ?case by simp
next
  case (Cons kv ws)
  obtain k e where kv: "kv = (k, e)" by (cases kv)
  show ?case
    using Cons.IH
    by (simp add: kv worker_dict_def json_worker_def)
qed

lemma get_state_snapshot_eq:
  "get_state_snapshot st =
     Json (PDict [(''tasks'', PDict (map (\<lambda>kv. (fst kv, json_value (task_dict (snd kv)))) (tasks st))),
                  (''pending_tasks'', PList (map json_value (map PStr (pending_tasks st)))),
                  (''workers'', PDict (map (\<lambda>kv. (fst kv, json_value (worker_dict (snd kv)))) (workers st)))])"
  by (simp add: get_state_snapshot_def comp_def)

lemma load_get_snapshot:
  "load_state_snapshot b clock (get_state_snapshot st)
     = Some (Synced, json_state st, max_lamport_ts (map snd (tasks st)) 0)"
proof -
  have m: "map snd (map (\<lambda>kv. (fst kv, json_task (snd kv))) (tasks st)) = map json_task (map snd (tasks st))"
    by (simp add: comp_def)
  have "max_lamport_ts (map json_task ts) k = max_lamport_ts ts k" for ts k
    by (induction ts arbitrary: k) (simp_all add: json_task_def)
  then show ?thesis
    unfolding get_state_snapshot_eq
    by (simp add: load_state_snapshot_def dict_get_def load_tasks_roundtrip
        as_str_list_roundtrip as_workers_roundtrip json_state_def set_time_def m
        del: map_map)
qed

lemma max_lamport_ts_Max:
  "max_lamport_ts ts m = Max (insert m (lamport_ts ` set ts))"
proof (induction ts arbitrary: m)
  case Nil
  show ?case by simp
next
  case (Cons t ts)
  have "Max (insert (max m (lamport_ts t)) (lamport_ts ` set ts))
      = Max (insert m (insert (lamport_ts t) (lamport_ts ` set ts)))"
    by (cases "set ts = {}") (simp_all add: max.assoc)
  moreover have "(if m < lamport_ts t then lamport_ts t else m) = max m (lamport_ts t)"
    by (simp add: max_def)
  ultimately show ?case
    by (simp add: Cons.IH del: Max_insert)
qed

lemma json_state_no_tuples: "no_tuples st \<Longrightarrow> json_state st = st"
proof -
  assume h: "no_tuples st"
  have "(fst kv, json_task (snd kv)) = kv" if "kv \<in> set (tasks st)" for kv
    using h that by (cases kv) (auto simp: no_tuples_def list_all_iff json_task_def json_value_no_tuple)
  moreover have "(fst kv, json_worker (snd kv)) = kv" if "kv \<in> set (workers st)" for kv
    using h that by (cases kv) (auto simp: no_tuples_def list_all_iff json_worker_def json_value_no_tuple)
  ultimately show ?thesis
    by (simp add: json_state_def map_idI)
qed

lemma is_max_lamport_ts_Max:
  assumes "\<exists>kv \<in> set (tasks st). 0 \<le> lamport_ts (snd kv)"
  shows "is_max_lamport_ts st (Max (insert 0 (lamport_ts ` snd ` set (tasks st))))"
proof -
  let ?A = "lamport_ts ` snd ` set (tasks st)"
  have fin: "finite ?A" by simp
  from assms obtain a where a: "a \<in> ?A" "0 \<le> a" by auto
  then have ne: "?A \<noteq> {}" by auto
  have "Max (insert 0 ?A) = max 0 (Max ?A)"
    using fin ne by simp
  moreover have "a \<le> Max ?A" using fin a(1) by simp
  ultimately have eq: "Max (insert 0 ?A) = Max ?A" using a(2) by simp
  have "Max ?A \<in> ?A" using fin ne by (rule Max_in)
  moreover have "\<forall>x \<in> ?A. x \<le> Max ?A" using fin by simp
  ultimately show ?thesis
    unfolding eq is_max_lamport_ts_def list_ex_iff list_all_iff by force
qed

text \<open>
  C4, amended. Loading the snapshot of a store \<open>S\<close> into any store yields the tasks, the
  pending queue and the workers of \<open>S\<close> as JSON carries them, that is, with every tuple in
  a \<open>data\<close>, \<open>result\<close> or \<open>addr\<close> turned into a list, and exactly those of \<open>S\<close> when
  these hold no tuple. The clock is set to the maximum of 0 and the \<open>lamport_ts\<close> of all
  tasks, which is the maximum \<open>lamport_ts\<close> whenever some task has a non-negative one.
\<close>

theorem snapshot_roundtrip:
  "load_state_snapshot b clock (get_state_snapshot st)
     = Some (Synced, json_state st, Max (insert 0 (lamport_ts ` snd ` set (tasks st))))
   \<and> (no_tuples st \<longrightarrow> json_state st = st)
   \<and> ((\<exists>kv \<in> set (tasks st). 0 \<le> lamport_ts (snd kv)) \<longrightarrow>
        is_max_lamport_ts st (Max (insert 0 (lamport_ts ` snd ` set (tasks st)))))"
proof (intro conjI impI)
  show "load_state_snapshot b clock (get_state_snapshot st)
     = Some (Synced, json_state st, Max (insert 0 (lamport_ts ` snd ` set (tasks st))))"
    by (simp add: load_get_snapshot max_lamport_ts_Max image_image del: Max_insert)
next
  assume "no_tuples st"
  then show "json_state st = st" by (rule json_state_no_tuples)
next
  assume "\<exists>kv \<in> set (tasks st). 0 \<le> lamport_ts (snd kv)"
  then show "is_max_lamport_ts st (Max (insert 0 (lamport_ts ` snd ` set (tasks st))))"
    by (rule is_max_lamport_ts_Max)
qed

theorem snapshot_roundtrip_witness:
  "no_tuples state_loaded
   \<and> (\<exists>kv \<in> set (tasks state_loaded). 0 \<le> lamport_ts (snd kv))
   \<and> load_state_snapshot init_state 0 (get_state_snapshot state_loaded)
       = Some (Synced, state_loaded, 1)
   \<and> is_max_lamport_ts state_loaded 1"
proof -
  have h1: "no_tuples state_loaded"
    by (simp add: no_tuples_def state_loaded_def task1_def)
  have h2: "\<exists>kv \<in> set (tasks state_loaded). 0 \<le> lamport_ts (snd kv)"
    by (simp add: state_loaded_def task1_def)
  have m: "Max (insert 0 (lamport_ts ` snd ` set (tasks state_loaded))) = 1"
    by (simp add: state_loaded_def task1_def)
  show ?thesis
    using h1 h2 snapshot_roundtrip [of init_state 0 state_loaded]
    unfolding m by simp
qed

text \<open>
  C4 as stated fails on the store with one registered worker and no task: the loaded
  worker's address is a list where the original is a tuple, and the clock is set to 0,
  which is the \<open>lamport_ts\<close> of no task.
\<close>

theorem snapshot_roundtrip_counterexample:
  "load_state_snapshot init_state 0 (get_state_snapshot state_heartbeat)
     = Some (Synced,
             \<lparr>tasks = [], pending_tasks = [],
              workers = [(''localhost_60001'',
                          \<lparr>addr = PList [PStr ''127.0.0.1'', PInt 40000], last_heartbeat = 100\<rparr>)]\<rparr>,
             0)
   \<and> workers state_heartbeat
       = [(''localhost_60001'',
           \<lparr>addr = PTuple [PStr ''127.0.0.1'', PInt 40000], last_heartbeat = 100\<rparr>)]
   \<and> \<not> is_max_lamport_ts state_heartbeat 0"
  by (simp add: load_get_snapshot json_state_def json_worker_def state_heartbeat_def
      update_worker_heartbeat_def init_state_def is_max_lamport_ts_def)

text \<open>
  What is rejected before the first assignment leaves the store and the clock as they
  were: bytes that do not decode, a document without \<open>tasks\<close>, a task record that
  \<open>Task\<close> refuses.
\<close>

lemma load_undecodable:
  "load_state_snapshot st clock NotUtf8 = Some (Raised UnicodeDecodeError, st, clock)"
  "load_state_snapshot st clock NotJson = Some (Logged JSONDecodeError, st, clock)"
  by (simp_all add: load_state_snapshot_def)

lemma load_missing_tasks:
  "dict_get state ''tasks'' = None \<Longrightarrow>
   load_state_snapshot st clock (Json (PDict state)) = Some (Logged (KeyError ''tasks''), st, clock)"
  by (simp add: load_state_snapshot_def)

lemma load_bad_record:
  "dict_get state ''tasks'' = Some (PDict t_items) \<Longrightarrow> load_tasks t_items = Fails e \<Longrightarrow>
   load_state_snapshot st clock (Json (PDict state)) = Some (Raised e, st, clock)"
  by (simp add: load_state_snapshot_def)

text \<open>
  C1, evaluated. A snapshot with \<open>tasks\<close> but no \<open>pending_tasks\<close> is rejected with the
  logged \<open>KeyError\<close> after \<open>self.tasks\<close> was assigned: the task table is replaced, the
  queue still names the task that is gone. Without \<open>workers\<close>, the table and the queue
  are both replaced.
\<close>

theorem partial_snapshot_replaces_tasks:
  "tasks state_queued = [(''t1'', task1)] \<and> pending_tasks state_queued = [''t1'']
   \<and> load_state_snapshot state_queued 7 (Json (PDict [(''tasks'', PDict [])]))
       = Some (Logged (KeyError ''pending_tasks''),
               \<lparr>tasks = [], pending_tasks = [''t1''], workers = []\<rparr>, 7)
   \<and> load_state_snapshot state_queued 7
        (Json (PDict [(''tasks'', PDict []), (''pending_tasks'', PList [])]))
       = Some (Logged (KeyError ''workers''),
               \<lparr>tasks = [], pending_tasks = [], workers = []\<rparr>, 7)"
  by (simp add: state_queued_def add_task_def init_state_def load_state_snapshot_def
      dict_get_def task1_def)

section \<open>The pending queue along a run\<close>

lemma queued_are_known_iff:
  "queued_are_known st \<longleftrightarrow> set (pending_tasks st) \<subseteq> set (keys (tasks st))"
  by (auto simp: queued_are_known_def list_all_iff)

lemma set_keys_dict_set: "set (keys (dict_set d k v)) = insert k (set (keys d))"
  by (auto simp: keys_dict_set)

lemma known_add_task: "queued_are_known st \<Longrightarrow> queued_are_known (add_task st t)"
  by (auto simp: queued_are_known_iff add_task_def set_keys_dict_set)

lemma known_get_next_task: "queued_are_known st \<Longrightarrow> queued_are_known (snd (get_next_task st))"
  by (auto simp: queued_are_known_iff get_next_task_def set_keys_dict_set Let_def
      split: list.splits option.splits)

lemma known_heartbeat:
  "queued_are_known st \<Longrightarrow> queued_are_known (update_worker_heartbeat st w a now)"
  by (simp add: queued_are_known_iff update_worker_heartbeat_def)

lemma known_update_task_status:
  "queued_are_known st \<Longrightarrow> queued_are_known (update_task_status st tid s r)"
  by (auto simp: queued_are_known_iff update_task_status_def set_keys_dict_set dict_get_None_iff
      split: option.splits)

lemma keys_remove_dead: "keys (tasks (remove_dead ds st)) = keys (tasks st)"
  by (simp add: remove_dead_tasks keys_def comp_def)

lemma known_remove_dead:
  assumes "queued_are_known st"
  shows "queued_are_known (remove_dead ds st)"
proof -
  from remove_dead_pending [of ds st] obtain front where
    f: "pending_tasks (remove_dead ds st) = front @ pending_tasks st"
       "set front = {tid. \<exists>t. (tid, t) \<in> set (tasks st) \<and> (\<exists>w \<in> set ds. held_by w t)}"
    by blast
  have "set front \<subseteq> set (keys (tasks st))"
    unfolding f(2) keys_def by force
  with assms f(1) show ?thesis
    by (simp add: queued_are_known_iff keys_remove_dead)
qed

lemma known_check_dead_workers:
  "queued_are_known st \<Longrightarrow> queued_are_known (snd (check_dead_workers st now))"
  by (simp add: check_dead_workers_def Let_def known_remove_dead)

lemma state_manager_monitor_step:
  "state_manager (monitor_step orch now) = snd (check_dead_workers (state_manager orch) now)"
  by (simp add: monitor_step_def split: prod.splits)

lemma get_next_task_Some:
  assumes "get_next_task st = (Some task, st1)"
  shows "\<exists>ref rest t. pending_tasks st = ref # rest \<and> dict_get (tasks st) ref = Some t
           \<and> task = t\<lparr>status := ''IN_PROGRESS''\<rparr>
           \<and> st1 = st\<lparr>tasks := dict_set (tasks st) ref task, pending_tasks := rest\<rparr>"
  using assms
  by (auto simp: get_next_task_def Let_def split: list.splits option.splits)

text \<open>The store after one pass of the dispatch loop, by the way the pass ends.\<close>

lemma distribute_step_cases:
  obtains
    (idle) "state_manager (snd (distribute_step orch net)) = snd (get_next_task (state_manager orch))"
      "fst (distribute_step orch net) \<noteq> Requeued"
  | (requeued) task st1 t where
      "get_next_task (state_manager orch) = (Some task, st1)"
      "fst (distribute_step orch net) = Requeued"
      "state_manager (snd (distribute_step orch net)) = add_task st1 t"
      "t = task \<or> t = task\<lparr>assigned_worker := None\<rparr>"
  | (assigned) task st1 ref rest w where
      "get_next_task (state_manager orch) = (Some task, st1)"
      "pending_tasks (state_manager orch) = ref # rest"
      "fst (distribute_step orch net) \<noteq> Requeued"
      "state_manager (snd (distribute_step orch net))
         = st1\<lparr>tasks := dict_set (tasks st1) ref (task\<lparr>assigned_worker := Some w\<rparr>)\<rparr>"
proof (cases "pending_tasks (state_manager orch)")
  case Nil
  then have "state_manager (snd (distribute_step orch net)) = snd (get_next_task (state_manager orch))"
    "fst (distribute_step orch net) \<noteq> Requeued"
    by (simp_all add: distribute_step_def get_next_task_def)
  then show ?thesis by (rule idle)
next
  case (Cons ref rest)
  obtain r st1 where g: "get_next_task (state_manager orch) = (r, st1)"
    by (cases "get_next_task (state_manager orch)")
  show ?thesis
  proof (cases r)
    case None
    then have "state_manager (snd (distribute_step orch net)) = snd (get_next_task (state_manager orch))"
      "fst (distribute_step orch net) \<noteq> Requeued"
      using Cons g by (simp_all add: distribute_step_def)
    then show ?thesis by (rule idle)
  next
    case (Some task)
    obtain w lb1 where n: "get_next_worker (load_balancer orch) = (w, lb1)"
      by (cases "get_next_worker (load_balancer orch)")
    show ?thesis
    proof (cases "w = None \<or> w = Some []")
      case True
      then have "fst (distribute_step orch net) = Requeued"
        "state_manager (snd (distribute_step orch net)) = add_task st1 task"
        using Cons g Some n by (simp_all add: distribute_step_def)
      then show ?thesis using g Some by (intro requeued [of task st1 task]) simp_all
    next
      case False
      then obtain wid where wid: "w = Some wid" "wid \<noteq> []" by auto
      show ?thesis
      proof (cases "dict_get (workers st1) wid")
        case None
        then have "fst (distribute_step orch net) = Requeued"
          "state_manager (snd (distribute_step orch net)) = add_task st1 (task\<lparr>assigned_worker := None\<rparr>)"
          using Cons g Some n wid by (simp_all add: distribute_step_def Let_def)
        then show ?thesis using g Some
          by (intro requeued [of task st1 "task\<lparr>assigned_worker := None\<rparr>"]) simp_all
      next
        case (Some entry)
        note entry = this
        show ?thesis
        proof (cases net)
          case Delivered
          then have "fst (distribute_step orch net) \<noteq> Requeued"
            "state_manager (snd (distribute_step orch net))
               = st1\<lparr>tasks := dict_set (tasks st1) ref (task\<lparr>assigned_worker := Some wid\<rparr>)\<rparr>"
            using Cons g \<open>r = Some task\<close> n wid entry by (simp_all add: distribute_step_def Let_def)
          then show ?thesis using g \<open>r = Some task\<close> Cons
            by (intro assigned [of task st1 ref rest wid]) simp_all
        next
          case ConnectionRefused
          then have "fst (distribute_step orch net) = Requeued"
            "state_manager (snd (distribute_step orch net)) = add_task st1 (task\<lparr>assigned_worker := None\<rparr>)"
            using Cons g \<open>r = Some task\<close> n wid entry by (simp_all add: distribute_step_def Let_def)
          then show ?thesis using g \<open>r = Some task\<close>
            by (intro requeued [of task st1 "task\<lparr>assigned_worker := None\<rparr>"]) simp_all
        next
          case ConnectFailed
          then have "state_manager (snd (distribute_step orch net)) = snd (get_next_task (state_manager orch))"
            "fst (distribute_step orch net) \<noteq> Requeued"
            using Cons g \<open>r = Some task\<close> n wid entry by (simp_all add: distribute_step_def Let_def)
          then show ?thesis by (rule idle)
        next
          case SendFailed
          then have "fst (distribute_step orch net) \<noteq> Requeued"
            "state_manager (snd (distribute_step orch net))
               = st1\<lparr>tasks := dict_set (tasks st1) ref (task\<lparr>assigned_worker := Some wid\<rparr>)\<rparr>"
            using Cons g \<open>r = Some task\<close> n wid entry by (simp_all add: distribute_step_def Let_def)
          then show ?thesis using g \<open>r = Some task\<close> Cons
            by (intro assigned [of task st1 ref rest wid]) simp_all
        qed
      qed
    qed
  qed
qed

text \<open>
  Whenever a pass of the dispatch loop re-queues, the task it appends to the queue is
  stored with status IN\_PROGRESS.
\<close>

lemma requeued_task_in_progress:
  assumes "fst (distribute_step orch net) = Requeued"
  shows "\<exists>tid t. pending_tasks (state_manager (snd (distribute_step orch net)))
              = pending_tasks (snd (get_next_task (state_manager orch))) @ [tid]
           \<and> dict_get (tasks (state_manager (snd (distribute_step orch net)))) tid = Some t
           \<and> status t = ''IN_PROGRESS''"
proof (cases orch net rule: distribute_step_cases)
  case idle
  then show ?thesis using assms by simp
next
  case (requeued task st1 t)
  from get_next_task_Some [OF requeued(1)] have "status task = ''IN_PROGRESS''" by auto
  with requeued(4) have "status t = ''IN_PROGRESS''" by auto
  then show ?thesis
    using requeued(1,3) by (simp add: add_task_def dict_get_dict_set)
next
  case (assigned task st1 ref rest w)
  then show ?thesis using assms by simp
qed

lemma known_distribute_step:
  assumes "queued_are_known (state_manager orch)"
  shows "queued_are_known (state_manager (snd (distribute_step orch net)))"
proof (cases orch net rule: distribute_step_cases)
  case idle
  then show ?thesis using assms by (simp add: known_get_next_task)
next
  case (requeued task st1 t)
  have "queued_are_known st1"
    using known_get_next_task [OF assms] requeued(1) by simp
  then show ?thesis using requeued(3) by (simp add: known_add_task)
next
  case (assigned task st1 ref rest w)
  have "queued_are_known st1"
    using known_get_next_task [OF assms] assigned(1) by simp
  then show ?thesis
    using assigned(4) by (auto simp: queued_are_known_iff set_keys_dict_set)
qed

lemma known_apply_op:
  "queued_are_known (state_manager orch) \<Longrightarrow> queued_are_known (state_manager (apply_op orch x))"
  by (cases x)
     (simp_all add: known_add_task known_get_next_task known_heartbeat known_update_task_status
        known_distribute_step state_manager_monitor_step known_check_dead_workers)

lemma known_run:
  "queued_are_known (state_manager orch) \<Longrightarrow> queued_are_known (state_manager (run orch xs))"
  by (induction xs arbitrary: orch) (simp_all add: known_apply_op)

lemma queued_are_pending_iff:
  "queued_are_pending st \<longleftrightarrow>
     (\<forall>tid \<in> set (pending_tasks st). \<exists>t. dict_get (tasks st) tid = Some t \<and> status t = ''PENDING'')"
  by (auto simp: queued_are_pending_def list_all_iff split: option.splits)

lemma wf_dict_dict_set: "wf_dict d \<Longrightarrow> wf_dict (dict_set d k v)"
  by (simp add: wf_dict_def keys_dict_set)

lemma dict_get_Some_key: "dict_get d k = Some v \<Longrightarrow> k \<in> set (keys d)"
  using dict_get_None_iff [of d k] by auto

lemma wf_dict_get: "wf_dict d \<Longrightarrow> (k, v) \<in> set d \<Longrightarrow> dict_get d k = Some v"
  by (simp add: wf_dict_def keys_def dict_get_def)

lemma invariant_add_task:
  assumes "queue_invariant st" "status t = ''PENDING''" "task_id t \<notin> set (keys (tasks st))"
  shows "queue_invariant (add_task st t)"
proof -
  have "task_id t \<notin> set (pending_tasks st)"
    using assms(1,3) by (auto simp: queue_invariant_def queued_are_pending_iff dest: dict_get_Some_key)
  then show ?thesis
    using assms
    by (auto simp: queue_invariant_def queued_are_pending_iff add_task_def wf_dict_dict_set
        dict_get_dict_set)
qed

lemma invariant_get_next_task:
  assumes "queue_invariant st"
  shows "queue_invariant (snd (get_next_task st))"
proof (cases "pending_tasks st")
  case Nil
  then show ?thesis using assms by (simp add: get_next_task_def)
next
  case (Cons ref rest)
  then have d: "ref \<notin> set rest" "distinct rest"
    using assms by (simp_all add: queue_invariant_def)
  show ?thesis
    using assms Cons d
    by (auto simp: queue_invariant_def queued_are_pending_iff get_next_task_def Let_def
        wf_dict_dict_set dict_get_dict_set split: option.splits)
qed

lemma invariant_heartbeat:
  "queue_invariant st \<Longrightarrow> queue_invariant (update_worker_heartbeat st w a now)"
  by (simp add: queue_invariant_def queued_are_pending_iff update_worker_heartbeat_def)

lemma invariant_update_task_status:
  assumes "queue_invariant st" "tid \<notin> set (pending_tasks st)"
  shows "queue_invariant (update_task_status st tid s r)"
  using assms
  by (auto simp: queue_invariant_def queued_are_pending_iff update_task_status_def
      wf_dict_dict_set dict_get_dict_set split: option.splits)


lemma dict_get_map_values:
  "dict_get (map (\<lambda>kv. (fst kv, g (snd kv))) d) k = map_option g (dict_get d k)"
  by (induction d) (auto simp: dict_get_def)

lemma invariant_reassign:
  assumes "queue_invariant st"
  shows "queue_invariant
     (st\<lparr>workers := ws,
         tasks := map (\<lambda>kv. (fst kv, if held_by w (snd kv) then reset_task (snd kv) else snd kv)) (tasks st),
         pending_tasks := rev (map fst (filter (\<lambda>kv. held_by w (snd kv)) (tasks st))) @ pending_tasks st\<rparr>)"
proof -
  let ?g = "\<lambda>t. if held_by w t then reset_task t else t"
  let ?ts = "map (\<lambda>kv. (fst kv, ?g (snd kv))) (tasks st)"
  let ?f = "map fst (filter (\<lambda>kv. held_by w (snd kv)) (tasks st))"
  have wf: "wf_dict (tasks st)" and dq: "distinct (pending_tasks st)"
    and qp: "\<forall>tid \<in> set (pending_tasks st). \<exists>t. dict_get (tasks st) tid = Some t \<and> status t = ''PENDING''"
    using assms by (simp_all add: queue_invariant_def queued_are_pending_iff)
  have get: "dict_get ?ts tid = map_option ?g (dict_get (tasks st) tid)" for tid
    by (rule dict_get_map_values)
  have wf': "wf_dict ?ts"
    using wf by (simp add: wf_dict_def keys_def comp_def)
  have df: "distinct ?f"
    using wf by (simp add: wf_dict_def keys_def distinct_map_filter)
  have held: "\<exists>t. dict_get (tasks st) tid = Some t \<and> held_by w t" if "tid \<in> set ?f" for tid
  proof -
    from that obtain t where "(tid, t) \<in> set (tasks st)" "held_by w t" by auto
    then show ?thesis using wf_dict_get [OF wf] by blast
  qed
  have disj: "set ?f \<inter> set (pending_tasks st) = {}"
  proof -
    have False if "tid \<in> set ?f" "tid \<in> set (pending_tasks st)" for tid
    proof -
      from held [OF that(1)] obtain t where t: "dict_get (tasks st) tid = Some t" "held_by w t" by blast
      from qp that(2) t(1) have "status t = ''PENDING''" by auto
      with t(2) show False by (simp add: held_by_def)
    qed
    then show ?thesis by blast
  qed
  have pend: "\<exists>t. dict_get ?ts tid = Some t \<and> status t = ''PENDING''"
    if "tid \<in> set ?f \<or> tid \<in> set (pending_tasks st)" for tid
    using that
  proof
    assume "tid \<in> set ?f"
    from held [OF this] obtain t where "dict_get (tasks st) tid = Some t" "held_by w t" by blast
    then show ?thesis by (simp add: get reset_task_def)
  next
    assume "tid \<in> set (pending_tasks st)"
    with qp obtain t where t: "dict_get (tasks st) tid = Some t" "status t = ''PENDING''" by blast
    then have "\<not> held_by w t" by (simp add: held_by_def)
    with t show ?thesis by (simp add: get)
  qed
  show ?thesis
    unfolding queue_invariant_def queued_are_pending_iff
    using wf' df dq disj pend by auto
qed

lemma invariant_remove_dead:
  "queue_invariant st \<Longrightarrow> queue_invariant (remove_dead ds st)"
proof (induction ds arbitrary: st)
  case Nil
  then show ?case by simp
next
  case (Cons w ds)
  show ?case
    using Cons.IH [OF invariant_reassign [OF Cons.prems, where ws = "dict_del (workers st) w" and w = w]]
    by (simp add: reassign_tasks_eq)
qed

lemma invariant_check_dead_workers:
  "queue_invariant st \<Longrightarrow> queue_invariant (snd (check_dead_workers st now))"
  by (simp add: check_dead_workers_def Let_def invariant_remove_dead)

lemma invariant_distribute_step:
  assumes "queue_invariant (state_manager orch)" "fst (distribute_step orch net) \<noteq> Requeued"
  shows "queue_invariant (state_manager (snd (distribute_step orch net)))"
proof (cases orch net rule: distribute_step_cases)
  case idle
  then show ?thesis using assms(1) by (simp add: invariant_get_next_task)
next
  case (requeued task st1 t)
  then show ?thesis using assms(2) by simp
next
  case (assigned task st1 ref rest w)
  have inv1: "queue_invariant st1"
    using invariant_get_next_task [OF assms(1)] assigned(1) by simp
  from get_next_task_Some [OF assigned(1)] assigned(2)
  have q1: "pending_tasks st1 = rest" by auto
  have "ref \<notin> set rest"
    using assms(1) assigned(2) by (simp add: queue_invariant_def)
  with inv1 q1 show ?thesis
    unfolding assigned(4)
    by (auto simp: queue_invariant_def queued_are_pending_iff wf_dict_dict_set dict_get_dict_set)
qed

lemma invariant_apply_op:
  "queue_invariant (state_manager orch) \<Longrightarrow> plain_op orch x \<Longrightarrow>
   queue_invariant (state_manager (apply_op orch x))"
  by (cases x)
     (simp_all add: invariant_add_task invariant_get_next_task invariant_heartbeat
        invariant_update_task_status invariant_distribute_step state_manager_monitor_step
        invariant_check_dead_workers)

lemma invariant_run:
  "queue_invariant (state_manager orch) \<Longrightarrow> plain_run orch xs \<Longrightarrow>
   queue_invariant (state_manager (run orch xs))"
  by (induction xs arbitrary: orch) (simp_all add: invariant_apply_op)

lemma init_invariant:
  "queued_are_known (state_manager init_orchestrator)"
  "queue_invariant (state_manager init_orchestrator)"
  by (simp_all add: init_orchestrator_def init_state_def queued_are_known_def
      queue_invariant_def queued_are_pending_def wf_dict_def keys_def)

lemma rescue_run_eval:
  "state_manager (run init_orchestrator rescue_run)
     = \<lparr>tasks = [(''t1'', task1)], pending_tasks = [''t1''], workers = []\<rparr>"
  "plain_run init_orchestrator rescue_run"
  by (simp_all add: rescue_run_def init_orchestrator_def init_state_def init_balancer_def
      add_task_def task1_def update_worker_heartbeat_def monitor_step_def check_dead_workers_def
      dead_workers_def is_dead_def WORKER_TIMEOUT_def update_workers_def keys_def
      distribute_step_def get_next_task_def get_next_worker_def dict_get_def dict_del_def Let_def)

text \<open>
  C3, amended. In every state reached from the initial one by any sequence of \<open>add_task\<close>,
  \<open>get_next_task\<close>, heartbeats, \<open>check_dead_workers\<close>, \<open>update_task_status\<close> and passes of
  the dispatch loop, every id in the pending queue is a key of the task table. When
  moreover \<open>add_task\<close> is only given PENDING tasks under new ids, \<open>update_task_status\<close> is
  not applied to a queued task and no pass of the dispatch loop re-queues, every queued
  task has status PENDING, so none is IN\_PROGRESS.
\<close>

theorem queue_invariant_of_runs:
  "queued_are_known (state_manager (run init_orchestrator ops))
   \<and> (plain_run init_orchestrator ops \<longrightarrow>
        queued_are_pending (state_manager (run init_orchestrator ops)))"
  using known_run [OF init_invariant(1), of ops]
        invariant_run [OF init_invariant(2), of ops]
  by (simp add: queue_invariant_def)

theorem queue_invariant_of_runs_witness:
  "plain_run init_orchestrator rescue_run
   \<and> pending_tasks (state_manager (run init_orchestrator rescue_run)) = [''t1'']
   \<and> queued_are_known (state_manager (run init_orchestrator rescue_run))
   \<and> queued_are_pending (state_manager (run init_orchestrator rescue_run))"
  using queue_invariant_of_runs [of rescue_run] rescue_run_eval(2)
  by (simp add: rescue_run_eval(1))

text \<open>
  C3 as stated fails when a completion arrives for a task that is in the queue:
  \<open>update_task_status\<close> overwrites the status whatever the task's place, and the queued
  task is COMPLETED.
\<close>

theorem queued_task_completed_counterexample:
  "pending_tasks (state_manager (run init_orchestrator late_completion_run)) = [''t1'']
   \<and> map_option status (dict_get (tasks (state_manager (run init_orchestrator late_completion_run))) ''t1'')
       = Some ''COMPLETED''
   \<and> \<not> queued_are_pending (state_manager (run init_orchestrator late_completion_run))"
  by (simp add: late_completion_run_def init_orchestrator_def init_state_def add_task_def
      task1_def update_task_status_def dict_get_def queued_are_pending_def)

end
